theory Spec2Isabelle
  imports Main "HOL-Library.AList" "HOL-Library.Multiset"
begin

section \<open>Errors of the program\<close>

text \<open>
  Go errors are values. Every \<^verbatim>\<open>fmt.Errorf\<close> format string of the sources is one
  constructor; the operands of the format are the constructor's arguments, and a
  \<^verbatim>\<open>%w\<close> operand is the wrapped error itself. \<^verbatim>\<open>lastErr\<close> of the retry loop starts
  as \<^verbatim>\<open>nil\<close>, so the error wrapped by \<open>AllRetriesFailed\<close> is optional.
\<close>

datatype error =
    NetError string
      \<comment> \<open>the error returned by \<^verbatim>\<open>client.Do\<close> (connection failure, timeout, ...)\<close>
  | CreateRequestFailed string
      \<comment> \<open>\<^verbatim>\<open>"failed to create request: %w"\<close>\<close>
  | RateLimited int string
      \<comment> \<open>\<^verbatim>\<open>"rate limited: %d %s"\<close>, status code and status text\<close>
  | RequestFailed int string
      \<comment> \<open>\<^verbatim>\<open>"request failed %d: %s"\<close>\<close>
  | CtxErr
      \<comment> \<open>\<^verbatim>\<open>ctx.Err()\<close> after \<^verbatim>\<open>ctx.Done()\<close> fired\<close>
  | AllRetriesFailed "error option"
      \<comment> \<open>\<^verbatim>\<open>"all retry attempts failed, last error: %w"\<close> around \<^verbatim>\<open>lastErr\<close>\<close>
  | ScrapingPage int error
      \<comment> \<open>\<^verbatim>\<open>"error scraping page %d: %w"\<close>\<close>
  | DocumentError string
      \<comment> \<open>the error of \<^verbatim>\<open>goquery.NewDocumentFromReader\<close>\<close>
  | InvalidURL string
      \<comment> \<open>\<^verbatim>\<open>"invalid URL: %w"\<close>\<close>
  | JobIDNotFound string
      \<comment> \<open>\<^verbatim>\<open>"job ID not found in URL path: %s"\<close>\<close>
  | DescriptionNotFound
      \<comment> \<open>\<^verbatim>\<open>"job description not found"\<close>\<close>
  | ExecError string
      \<comment> \<open>the error returned by \<^verbatim>\<open>db.Exec\<close>\<close>
  | InsertingJobs error
      \<comment> \<open>\<^verbatim>\<open>"error inserting jobs: %v"\<close>\<close>
  | SavingJobDescriptions error
      \<comment> \<open>\<^verbatim>\<open>"error saving job descriptions: %v"\<close>\<close>
  | FailedToSaveJobs error
      \<comment> \<open>\<^verbatim>\<open>"failed to save jobs to database: %w"\<close>\<close>
  | FailedToSaveJobDescriptions error
      \<comment> \<open>\<^verbatim>\<open>"failed to save job descriptions: %w"\<close>\<close>

section \<open>Retryable transport\<close>

text \<open>
  \<^verbatim>\<open>time.Duration\<close> counts nanoseconds; the clock of the model is an integer number
  of nanoseconds as well.
\<close>

definition Second :: int where
  "Second = 1000000000"

record RetryConfig =
  MaxRetries :: int
  BaseDelay :: int
  MaxDelay :: int

record response =
  StatusCode :: int
  Status :: string

text \<open>What \<^verbatim>\<open>client.Do(req)\<close> hands back: an error, or a response.\<close>

datatype do_outcome = DoErr string | DoResp response

text \<open>
  The world one call of the transport runs in: the outcome of \<^verbatim>\<open>client.Do\<close> at each
  attempt and the time that attempt takes, whether \<^verbatim>\<open>http.NewRequestWithContext\<close>
  rejects the method or URL (it depends on the arguments only, so on every attempt alike),
  and the instant at which the cancellation token fires, if it ever does.
\<close>

record world =
  do_result :: "int \<Rightarrow> do_outcome"
  do_took :: "int \<Rightarrow> int"
  req_err :: "string option"
  cancel_at :: "int option"

text \<open>
  What an observer sees of one call: the clock, the number of \<^verbatim>\<open>client.Do\<close> calls
  made, and the backoff delays that ran to their end, in order.
\<close>

record tstate =
  clock :: int
  attempts :: nat
  slept :: "int list"

definition tstate0 :: tstate where
  "tstate0 = \<lparr>clock = 0, attempts = 0, slept = []\<rparr>"

text \<open>
  The \<^verbatim>\<open>if / else if\<close> chain after \<^verbatim>\<open>client.Do\<close>. \<open>Inl r\<close>: the function returns
  \<open>r\<close> at once. \<open>Inr e\<close>: \<^verbatim>\<open>lastErr = e\<close> and control falls through to the backoff.
\<close>

definition after_do :: "do_outcome \<Rightarrow> (error + response) + error" where
  "after_do out =
     (case out of
        DoErr e \<Rightarrow> Inr (NetError e)
      | DoResp resp \<Rightarrow>
          if 200 \<le> StatusCode resp \<and> StatusCode resp < 300 then Inl (Inr resp)
          else if StatusCode resp = 429 then
            Inr (RateLimited (StatusCode resp) (Status resp))
          else Inl (Inl (RequestFailed (StatusCode resp) (Status resp))))"

text \<open>
  \<^verbatim>\<open>select { case <-ctx.Done(): ...; case <-time.After(delay): }\<close> entered at time
  \<open>now\<close>. The token wins when it has fired, or fires, before the timer does; the
  function then resumes at the instant of the firing (at once, when the token had fired
  already). When both become ready at the same instant Go chooses either; the model lets
  the timer win there.
\<close>

definition backoff_select :: "int option \<Rightarrow> int \<Rightarrow> int \<Rightarrow> int + int" where
  "backoff_select cancel now delay =
     (case cancel of
        None \<Rightarrow> Inr (now + delay)
      | Some c \<Rightarrow> if c < now + delay then Inl (max now c) else Inr (now + delay))"

text \<open>
  The retry loop \<^verbatim>\<open>for attempt := 0; attempt <= maxRetries; attempt++\<close>. The two
  transports of the repository have the same loop body; they differ in the bound
  (\<^verbatim>\<open>s.config.MaxRetries\<close> or the literal 3) and in the expression for \<^verbatim>\<open>delay\<close>,
  which are the parameters \<open>maxRetries\<close> and \<open>delay\<close> here.
\<close>

function retry_loop ::
  "int \<Rightarrow> (int \<Rightarrow> int) \<Rightarrow> world \<Rightarrow> int \<Rightarrow> error option \<Rightarrow> tstate
     \<Rightarrow> (error + response) \<times> tstate" where
  "retry_loop maxRetries delay w attempt lastErr st =
     (if attempt \<le> maxRetries then
        (case req_err w of
           Some e \<Rightarrow> (Inl (CreateRequestFailed e), st)
         | None \<Rightarrow>
            (let st1 = st\<lparr>clock := clock st + do_took w attempt,
                          attempts := Suc (attempts st)\<rparr>
             in case after_do (do_result w attempt) of
                  Inl r \<Rightarrow> (r, st1)
                | Inr e \<Rightarrow>
                    if attempt < maxRetries then
                      (case backoff_select (cancel_at w) (clock st1) (delay attempt) of
                         Inl t \<Rightarrow> (Inl CtxErr, st1\<lparr>clock := t\<rparr>)
                       | Inr t \<Rightarrow>
                           retry_loop maxRetries delay w (attempt + 1) (Some e)
                             (st1\<lparr>clock := t, slept := slept st1 @ [delay attempt]\<rparr>))
                    else retry_loop maxRetries delay w (attempt + 1) (Some e) st1))
      else (Inl (AllRetriesFailed lastErr), st))"
  by pat_completeness auto
termination
  by (relation "measure (\<lambda>(m, d, w, a, l, s). nat (m + 1 - a))") auto

declare retry_loop.simps [simp del]

text \<open>
  \<^verbatim>\<open>(*RetryableHTTPRequestImpl).RetryableHTTPRequest\<close>: the bound is the configured
  \<^verbatim>\<open>MaxRetries\<close>, the delay is \<^verbatim>\<open>time.Second * 2\<close> at every attempt.
\<close>

definition RetryableHTTPRequestImpl_RetryableHTTPRequest ::
  "RetryConfig \<Rightarrow> world \<Rightarrow> (error + response) \<times> tstate" where
  "RetryableHTTPRequestImpl_RetryableHTTPRequest config w =
     retry_loop (MaxRetries config) (\<lambda>attempt. Second * 2) w 0 None tstate0"

text \<open>
  The free function \<^verbatim>\<open>utils.RetryableHTTPRequest\<close>: the bound is 3 and the delay is
  \<^verbatim>\<open>min(time.Duration(math.Pow(2, float64(attempt)))*1*time.Second, 30*time.Second)\<close>.
  The loop reaches the delay with \<open>0 \<le> attempt < 3\<close> only, where the power is exact.
\<close>

definition exp_delay :: "int \<Rightarrow> int" where
  "exp_delay attempt = min (2 ^ nat attempt * 1 * Second) (30 * Second)"

definition RetryableHTTPRequest :: "world \<Rightarrow> (error + response) \<times> tstate" where
  "RetryableHTTPRequest w = retry_loop 3 exp_delay w 0 None tstate0"

subsection \<open>The three classes of an attempt's outcome, in the words of the specification\<close>

definition Success_outcome :: "do_outcome \<Rightarrow> bool" where
  "Success_outcome out =
     (case out of DoErr e \<Rightarrow> False
      | DoResp r \<Rightarrow> 200 \<le> StatusCode r \<and> StatusCode r < 300)"

definition Retryable_outcome :: "do_outcome \<Rightarrow> bool" where
  "Retryable_outcome out =
     (case out of DoErr e \<Rightarrow> True | DoResp r \<Rightarrow> StatusCode r = 429)"

definition Terminal_outcome :: "do_outcome \<Rightarrow> bool" where
  "Terminal_outcome out =
     (case out of DoErr e \<Rightarrow> False
      | DoResp r \<Rightarrow> \<not> (200 \<le> StatusCode r \<and> StatusCode r < 300) \<and> StatusCode r \<noteq> 429)"

text \<open>The cause a retryable outcome leaves in \<^verbatim>\<open>lastErr\<close>.\<close>

definition cause_of :: "do_outcome \<Rightarrow> error" where
  "cause_of out =
     (case out of DoErr e \<Rightarrow> NetError e
      | DoResp r \<Rightarrow> RateLimited (StatusCode r) (Status r))"

text \<open>
  The time \<open>k\<close> retried attempts take, from attempt \<open>a\<close> on: each is one
  \<^verbatim>\<open>client.Do\<close> and one full backoff delay.
\<close>

primrec span :: "world \<Rightarrow> (int \<Rightarrow> int) \<Rightarrow> int \<Rightarrow> nat \<Rightarrow> int" where
  "span w d a 0 = 0"
| "span w d a (Suc k) = do_took w a + d a + span w d (a + 1) k"

subsection \<open>Worlds for the examples\<close>

text \<open>
  A response with a status code and status text; a world in which the attempts have the
  listed outcomes (and every further attempt fails to connect), each \<^verbatim>\<open>client.Do\<close> takes
  one second, the request can be built, and the token fires at the given instant, if any;
  the retry configuration that \<^verbatim>\<open>main\<close> passes to the scraper.
\<close>

definition resp :: "int \<Rightarrow> string \<Rightarrow> do_outcome" where
  "resp code text = DoResp \<lparr>StatusCode = code, Status = text\<rparr>"

definition script :: "do_outcome list \<Rightarrow> int \<Rightarrow> do_outcome" where
  "script outs i =
     (if 0 \<le> i \<and> nat i < length outs then outs ! nat i else DoErr ''connection refused'')"

definition world_of :: "do_outcome list \<Rightarrow> int option \<Rightarrow> world" where
  "world_of outs cancel =
     \<lparr>do_result = script outs, do_took = (\<lambda>i. Second), req_err = None, cancel_at = cancel\<rparr>"

definition main_config :: RetryConfig where
  "main_config = \<lparr>MaxRetries = 3, BaseDelay = 1 * Second, MaxDelay = 30 * Second\<rparr>"

text \<open>
  The instant at which the backoff after attempt \<open>k\<close> begins, when the attempts up to
  \<open>k\<close> were all retried: \<open>k\<close> full rounds and the \<^verbatim>\<open>client.Do\<close> of attempt \<open>k\<close>.
\<close>

definition backoff_start :: "world \<Rightarrow> (int \<Rightarrow> int) \<Rightarrow> nat \<Rightarrow> int" where
  "backoff_start w d k = span w d 0 k + do_took w (int k)"

section \<open>Data model\<close>

text \<open>\<^verbatim>\<open>models.Job\<close>; \<^verbatim>\<open>ID\<close> is an \<^verbatim>\<open>int64\<close>.\<close>

record Job =
  ID :: int
  Title :: string
  Company :: string
  CompanyLink :: string
  Location :: string
  JobLink :: string

text \<open>
  \<^verbatim>\<open>models.SearchQuery\<close>. Its field \<^verbatim>\<open>Location\<close> is \<open>QueryLocation\<close> here, the name
  being taken by \<open>Job\<close>.
\<close>

record SearchQuery =
  Keywords :: string
  QueryLocation :: string
  FWT :: string
  GeoId :: string

text \<open>
  \<^verbatim>\<open>pipeline.Config\<close>, the configuration of the scraper. The three retry fields carry the
  prefix \<open>Config\<close>, their names being taken by \<open>RetryConfig\<close>.
\<close>

record Config =
  Timespan :: string
  Distance :: string
  SortBy :: string
  ConfigMaxRetries :: int
  ConfigBaseDelay :: int
  ConfigMaxDelay :: int
  RequestTimeout :: int

section \<open>Library functions the scraper calls\<close>

subsection \<open>\<^verbatim>\<open>strings.TrimSpace\<close>\<close>

text \<open>
  Go strings are byte sequences in UTF-8, and so are the strings of the model. The white
  space of \<^verbatim>\<open>unicode.IsSpace\<close>, each code point in its UTF-8 encoding: the six ASCII
  ones, U+0085, U+00A0, U+1680, U+2000 to U+200A, U+2028, U+2029, U+202F, U+205F, U+3000.
\<close>

definition space_runes :: "string list" where
  "space_runes =
     [[CHR 0x09], [CHR 0x0A], [CHR 0x0B], [CHR 0x0C], [CHR 0x0D], [CHR 0x20],
      [CHR 0xC2, CHR 0x85], [CHR 0xC2, CHR 0xA0],
      [CHR 0xE1, CHR 0x9A, CHR 0x80],
      [CHR 0xE2, CHR 0x80, CHR 0x80], [CHR 0xE2, CHR 0x80, CHR 0x81],
      [CHR 0xE2, CHR 0x80, CHR 0x82], [CHR 0xE2, CHR 0x80, CHR 0x83],
      [CHR 0xE2, CHR 0x80, CHR 0x84], [CHR 0xE2, CHR 0x80, CHR 0x85],
      [CHR 0xE2, CHR 0x80, CHR 0x86], [CHR 0xE2, CHR 0x80, CHR 0x87],
      [CHR 0xE2, CHR 0x80, CHR 0x88], [CHR 0xE2, CHR 0x80, CHR 0x89],
      [CHR 0xE2, CHR 0x80, CHR 0x8A],
      [CHR 0xE2, CHR 0x80, CHR 0xA8], [CHR 0xE2, CHR 0x80, CHR 0xA9],
      [CHR 0xE2, CHR 0x80, CHR 0xAF], [CHR 0xE2, CHR 0x81, CHR 0x9F],
      [CHR 0xE3, CHR 0x80, CHR 0x80]]"

text \<open>The number of bytes of the rune of \<open>runes\<close> that \<open>s\<close> starts with; 0 when there is none.\<close>

definition leading_rune :: "string list \<Rightarrow> string \<Rightarrow> nat" where
  "leading_rune runes s =
     (case find (\<lambda>r. r \<noteq> [] \<and> take (length r) s = r) runes of
        None \<Rightarrow> 0
      | Some r \<Rightarrow> length r)"

function trim_leading :: "string list \<Rightarrow> string \<Rightarrow> string" where
  "trim_leading runes s =
     (if leading_rune runes s = 0 then s
      else trim_leading runes (drop (leading_rune runes s) s))"
  by pat_completeness auto
termination
proof (relation "measure (\<lambda>(runes, s). length s)")
  show "wf (measure (\<lambda>(runes, s). length s))" by simp
next
  fix runes :: "string list" and s :: string
  assume pos: "leading_rune runes s \<noteq> 0"
  then obtain r where "find (\<lambda>r. r \<noteq> [] \<and> take (length r) s = r) runes = Some r"
    by (auto simp: leading_rune_def split: option.splits)
  then have "r \<noteq> []" "take (length r) s = r"
    by (auto simp: find_Some_iff)
  then have "s \<noteq> []" by auto
  with pos show "((runes, drop (leading_rune runes s) s), (runes, s))
                   \<in> measure (\<lambda>(runes, s). length s)"
    by simp
qed

declare trim_leading.simps [simp del]

definition TrimSpace :: "string \<Rightarrow> string" where
  "TrimSpace s = rev (trim_leading (map rev space_runes) (rev (trim_leading space_runes s)))"

subsection \<open>\<^verbatim>\<open>strconv.Itoa\<close> and \<^verbatim>\<open>strconv.ParseInt\<close>\<close>

text \<open>Go's \<^verbatim>\<open>int\<close> and \<^verbatim>\<open>int64\<close> arithmetic wraps around in 64 bits, two's complement.\<close>

definition int64 :: "int \<Rightarrow> int" where
  "int64 x = (x + 2 ^ 63) mod 2 ^ 64 - 2 ^ 63"

function nat_dec :: "nat \<Rightarrow> string" where
  "nat_dec n = (if n < 10 then [''0123456789'' ! n]
                else nat_dec (n div 10) @ [''0123456789'' ! (n mod 10)])"
  by pat_completeness auto
termination
  by (relation "measure id") auto

declare nat_dec.simps [simp del]

definition Itoa :: "int \<Rightarrow> string" where
  "Itoa i = (if i < 0 then CHR ''-'' # nat_dec (nat (- i)) else nat_dec (nat i))"

definition is_digit :: "char \<Rightarrow> bool" where
  "is_digit c = (48 \<le> (of_char c :: nat) \<and> (of_char c :: nat) \<le> 57)"

definition digit_val :: "char \<Rightarrow> nat" where
  "digit_val c = of_char c - 48"

datatype NumError = ErrSyntax | ErrRange

definition maxUint64 :: nat where
  "maxUint64 = 2 ^ 64 - 1"

text \<open>
  The digit loop of \<^verbatim>\<open>strconv.ParseUint(s, 10, 64)\<close>, \<open>n\<close> the value so far. In base 10
  every byte that is not a decimal digit is a syntax error. \<^verbatim>\<open>cutoff\<close> is
  \<^verbatim>\<open>maxUint64/10 + 1\<close>; past it, or when adding the digit overflows, the result is
  \<^verbatim>\<open>maxUint64\<close> with a range error.
\<close>

fun ParseUint_digits :: "string \<Rightarrow> nat \<Rightarrow> nat \<times> NumError option" where
  "ParseUint_digits [] n = (n, None)"
| "ParseUint_digits (c # cs) n =
     (if \<not> is_digit c then (0, Some ErrSyntax)
      else if maxUint64 div 10 + 1 \<le> n then (maxUint64, Some ErrRange)
      else if maxUint64 < n * 10 + digit_val c then (maxUint64, Some ErrRange)
      else ParseUint_digits cs (n * 10 + digit_val c))"

definition ParseUint :: "string \<Rightarrow> nat \<times> NumError option" where
  "ParseUint s = (if s = [] then (0, Some ErrSyntax) else ParseUint_digits s 0)"

text \<open>\<^verbatim>\<open>strconv.ParseInt(s, 10, 64)\<close>: the value and the error, both of which it returns.\<close>

definition ParseInt :: "string \<Rightarrow> int \<times> NumError option" where
  "ParseInt s =
     (if s = [] then (0, Some ErrSyntax)
      else
        let neg = (hd s = CHR ''-'');
            s1 = (if hd s = CHR ''+'' \<or> hd s = CHR ''-'' then tl s else s);
            (un, err) = ParseUint s1
        in if err = Some ErrSyntax then (0, err)
           else if \<not> neg \<and> 2 ^ 63 \<le> un then (2 ^ 63 - 1, Some ErrRange)
           else if neg \<and> 2 ^ 63 < un then (- (2 ^ 63), Some ErrRange)
           else (if neg then - int un else int un, None))"

subsection \<open>\<^verbatim>\<open>url.QueryEscape\<close> and \<^verbatim>\<open>url.Values\<close>\<close>

definition is_alnum :: "char \<Rightarrow> bool" where
  "is_alnum c =
     (let n = (of_char c :: nat)
      in (97 \<le> n \<and> n \<le> 122) \<or> (65 \<le> n \<and> n \<le> 90) \<or> (48 \<le> n \<and> n \<le> 57))"

text \<open>
  \<^verbatim>\<open>shouldEscape(c, encodeQueryComponent)\<close>: letters, digits and \<^verbatim>\<open>- _ . ~\<close> stay, every
  other byte is escaped.
\<close>

definition shouldEscape :: "char \<Rightarrow> bool" where
  "shouldEscape c = (\<not> (is_alnum c \<or> c \<in> set ''-_.~''))"

definition escape_byte :: "char \<Rightarrow> string" where
  "escape_byte c =
     (if c = CHR '' '' then ''+''
      else if shouldEscape c then
        [CHR ''%'', ''0123456789ABCDEF'' ! (of_char c div 16),
                    ''0123456789ABCDEF'' ! (of_char c mod 16)]
      else [c])"

definition QueryEscape :: "string \<Rightarrow> string" where
  "QueryEscape s = concat (map escape_byte s)"

text \<open>
  \<^verbatim>\<open>url.Values\<close> as the scraper uses it: \<^verbatim>\<open>Set\<close> only, so one value per key. \<^verbatim>\<open>Encode\<close>
  writes the pairs sorted by key (byte order), key and value escaped, joined by \<^verbatim>\<open>&\<close>.
\<close>

type_synonym Values = "(string \<times> string) list"

definition Values_Set :: "string \<Rightarrow> string \<Rightarrow> Values \<Rightarrow> Values" where
  "Values_Set k v vs =
     (if k \<in> fst ` set vs then map (\<lambda>(k', v'). if k' = k then (k', v) else (k', v')) vs
      else vs @ [(k, v)])"

fun bytes_le :: "string \<Rightarrow> string \<Rightarrow> bool" where
  "bytes_le [] ys = True"
| "bytes_le (x # xs) [] = False"
| "bytes_le (x # xs) (y # ys) =
     ((of_char x :: nat) < of_char y \<or> (x = y \<and> bytes_le xs ys))"

fun insert_by_key :: "string \<times> string \<Rightarrow> Values \<Rightarrow> Values" where
  "insert_by_key p [] = [p]"
| "insert_by_key p (q # qs) =
     (if bytes_le (fst p) (fst q) then p # q # qs else q # insert_by_key p qs)"

definition sort_by_key :: "Values \<Rightarrow> Values" where
  "sort_by_key vs = foldr insert_by_key vs []"

fun join_amp :: "string list \<Rightarrow> string" where
  "join_amp [] = []"
| "join_amp [s] = s"
| "join_amp (s # t # ts) = s @ ''&'' @ join_amp (t # ts)"

definition Values_Encode :: "Values \<Rightarrow> string" where
  "Values_Encode vs =
     join_amp (map (\<lambda>(k, v). QueryEscape k @ ''='' @ QueryEscape v) (sort_by_key vs))"

subsection \<open>\<^verbatim>\<open>path.Base\<close>, the regular expression and \<^verbatim>\<open>strings.ReplaceAll\<close>\<close>

definition path_Base :: "string \<Rightarrow> string" where
  "path_Base path =
     (if path = [] then ''.''
      else
        let stripped = rev (dropWhile (\<lambda>c. c = CHR ''/'') (rev path));
            element = rev (takeWhile (\<lambda>c. c \<noteq> CHR ''/'') (rev stripped))
        in if element = [] then ''/'' else element)"

text \<open>
  \<^verbatim>\<open>regexp.MustCompile(`(\d+)$`).FindStringSubmatch(s)\<close>. The leftmost match of one or
  more ASCII digits up to the end of the text is the whole run of digits the text ends in.
  The result is \<^verbatim>\<open>nil\<close> (here the empty list) when the text ends in no digit, else
  the match and its one group.
\<close>

definition FindStringSubmatch_digits :: "string \<Rightarrow> string list" where
  "FindStringSubmatch_digits s =
     (let run = rev (takeWhile is_digit (rev s))
      in if run = [] then [] else [run, run])"

text \<open>
  \<^verbatim>\<open>strings.ReplaceAll(s, old, new)\<close> for a non-empty \<open>old\<close>: the occurrences are replaced
  from the left, without overlap. (The scraper calls it with a literal \<open>old\<close>; what Go
  does for an empty \<open>old\<close> is not modelled, the function returns \<open>s\<close> then.)
\<close>

function ReplaceAll :: "string \<Rightarrow> string \<Rightarrow> string \<Rightarrow> string" where
  "ReplaceAll s old new =
     (if s = [] \<or> old = [] then s
      else if take (length old) s = old then new @ ReplaceAll (drop (length old) s) old new
      else hd s # ReplaceAll (tl s) old new)"
  by pat_completeness auto
termination
  by (relation "measure (\<lambda>(s, old, new). length s)") auto

declare ReplaceAll.simps [simp del]


section \<open>The scraper\<close>

text \<open>
  One \<^verbatim>\<open>li > div.base-card\<close> block of a listing page, as goquery hands its parts to the
  scraper: the text of the title, of the company link and of the location, and the two
  \<^verbatim>\<open>href\<close> attributes (\<^verbatim>\<open>AttrOr("href", "")\<close>: empty when the attribute is missing).
\<close>

record card =
  title_text :: string
  company_text :: string
  company_href :: string
  location_text :: string
  link_href :: string

text \<open>
  What lies outside the program:
  \<^item> \<open>url_Parse\<close>: the standard library's \<^verbatim>\<open>url.Parse\<close>, reduced to what the scraper reads
    of its result, the error or the \<^verbatim>\<open>Path\<close> of the parsed URL;
  \<^item> \<open>site\<close>: for each URL, the world the transport call for it runs in;
  \<^item> \<open>page_at\<close>: for the URL of a listing page, the error of
    \<^verbatim>\<open>goquery.NewDocumentFromReader\<close> or the cards of the document, in document order;
  \<^item> \<open>detail_at\<close>: for the URL of a detail page, that error or what the selectors and
    \<^verbatim>\<open>parseHTMLContent\<close> extract from the document, the description text before it is
    trimmed and the criteria;
  \<^item> \<open>done_at\<close>: the outcome of the \<open>n\<close>-th \<^verbatim>\<open>select\<close> on \<^verbatim>\<open>ctx.Done()\<close> that the
    scanner or a worker runs, true when the \<^verbatim>\<open>ctx.Done()\<close> case is taken. (Where the
    other case is a channel operation that is ready too, Go chooses either.)
\<close>

record env =
  url_Parse :: "string \<Rightarrow> string + string"
  site :: "string \<Rightarrow> world"
  page_at :: "string \<Rightarrow> string + card list"
  detail_at :: "string \<Rightarrow> string + string \<times> (string \<rightharpoonup> string)"
  done_at :: "nat \<Rightarrow> bool"

text \<open>
  What an observer sees of a scan: the number of \<^verbatim>\<open>select\<close>s on the token run so far,
  the URLs handed to the transport, the number of HTTP requests the transport made for
  them (its attempts), and the jobs sent on \<^verbatim>\<open>jobChan\<close>; the URLs and the jobs in order.
\<close>

record sstate =
  polls :: nat
  requested :: "string list"
  http_requests :: nat
  emitted :: "Job list"

definition sstate0 :: sstate where
  "sstate0 = \<lparr>polls = 0, requested = [], http_requests = 0, emitted = []\<rparr>"

definition extractJobIDFromURL :: "(string \<Rightarrow> string + string) \<Rightarrow> string \<Rightarrow> error + string" where
  "extractJobIDFromURL parse jobURL =
     (case parse jobURL of
        Inl err \<Rightarrow> Inl (InvalidURL err)
      | Inr parsed_Path \<Rightarrow>
          let lastSegment = path_Base parsed_Path;
              matches = FindStringSubmatch_digits lastSegment
          in if length matches < 2 then Inl (JobIDNotFound jobURL)
             else Inr (matches ! 1))"

text \<open>
  \<^verbatim>\<open>buildSearchURL\<close>. The \<^verbatim>\<open>Set\<close> calls are in the order of the source; \<^verbatim>\<open>25*page\<close> is
  a product of Go \<^verbatim>\<open>int\<close>s.
\<close>

definition buildSearchURL :: "SearchQuery \<Rightarrow> int \<Rightarrow> string" where
  "buildSearchURL query page =
     (let baseURL = ''https://www.linkedin.com/jobs-guest/jobs/api/seeMoreJobPostings/search'';
          params = Values_Set ''keywords'' (QueryEscape (Keywords query)) [];
          params = Values_Set ''location'' (QueryEscape (QueryLocation query)) params;
          params = (if FWT query \<noteq> [] then Values_Set ''f_WT'' (FWT query) params else params);
          params = Values_Set ''start'' (Itoa (int64 (25 * page))) params
      in baseURL @ ''?'' @ Values_Encode params)"

definition buildJobDescriptionSearchURL :: "string \<Rightarrow> string" where
  "buildJobDescriptionSearchURL jobLink = ReplaceAll jobLink ''jp.linkedin.com'' ''linkedin.com''"

text \<open>
  The body of the callback of \<^verbatim>\<open>doc.Find("li > div.base-card").Each\<close>, for one card. An
  error of \<^verbatim>\<open>extractJobIDFromURL\<close> or of \<^verbatim>\<open>strconv.ParseInt\<close> is printed; the callback
  goes on with the values the two calls returned beside the error.
\<close>

definition job_of_card :: "(string \<Rightarrow> string + string) \<Rightarrow> card \<Rightarrow> Job" where
  "job_of_card parse s =
     (let link = TrimSpace (link_href s);
          jobId = (case extractJobIDFromURL parse link of Inl err \<Rightarrow> [] | Inr d \<Rightarrow> d);
          jobIdInt = fst (ParseInt jobId)
      in \<lparr>ID = jobIdInt,
          Title = TrimSpace (title_text s),
          Company = TrimSpace (company_text s),
          CompanyLink = TrimSpace (company_href s),
          Location = TrimSpace (location_text s),
          JobLink = link\<rparr>)"

definition each_card :: "(string \<Rightarrow> string + string) \<Rightarrow> card \<Rightarrow> Job list \<Rightarrow> Job list" where
  "each_card parse s jobs =
     (let job = job_of_card parse s
      in if Title job \<noteq> [] \<and> Company job \<noteq> [] \<and> Location job \<noteq> [] \<and> JobLink job \<noteq> []
         then jobs @ [job] else jobs)"

definition retry_config :: "Config \<Rightarrow> RetryConfig" where
  "retry_config config =
     \<lparr>MaxRetries = ConfigMaxRetries config, BaseDelay = ConfigBaseDelay config,
      MaxDelay = ConfigMaxDelay config\<rparr>"

text \<open>
  \<^verbatim>\<open>ScrapeJobsWithContext\<close> returns the jobs and the error; the URL it hands to the
  transport and the attempts the transport makes are added to the state.
\<close>

definition ScrapeJobsWithContext ::
  "Config \<Rightarrow> env \<Rightarrow> int \<Rightarrow> SearchQuery \<Rightarrow> sstate \<Rightarrow> (Job list \<times> error option) \<times> sstate" where
  "ScrapeJobsWithContext config e page params st =
     (let url = buildSearchURL params page;
          (res, t) = RetryableHTTPRequestImpl_RetryableHTTPRequest (retry_config config)
                       (site e url);
          st1 = st\<lparr>requested := requested st @ [url],
                      http_requests := http_requests st + attempts t\<rparr>
      in case res of
           Inl err \<Rightarrow> (([], Some err), st1)
         | Inr res \<Rightarrow>
             (case page_at e url of
                Inl err \<Rightarrow> (([], Some (DocumentError err)), st1)
              | Inr cards \<Rightarrow> ((fold (each_card (url_Parse e)) cards [], None), st1)))"

text \<open>
  The inner loop of the scanner, \<^verbatim>\<open>select { case <-ctx.Done(): ...; case jobChan <- job: }\<close>
  for each job of the page.
\<close>

fun send_jobs :: "env \<Rightarrow> Job list \<Rightarrow> sstate \<Rightarrow> error option \<times> sstate" where
  "send_jobs e [] st = (None, st)"
| "send_jobs e (job # jobs) st =
     (if done_at e (polls st) then (Some CtxErr, st\<lparr>polls := Suc (polls st)\<rparr>)
      else send_jobs e jobs (st\<lparr>polls := Suc (polls st), emitted := emitted st @ [job]\<rparr>))"

text \<open>The outer loop, over the page indices that \<^verbatim>\<open>range numPages\<close> yields.\<close>

fun scan_pages ::
  "Config \<Rightarrow> env \<Rightarrow> SearchQuery \<Rightarrow> int list \<Rightarrow> sstate \<Rightarrow> error option \<times> sstate" where
  "scan_pages config e params [] st = (None, st)"
| "scan_pages config e params (i # pages) st =
     (if done_at e (polls st) then (Some CtxErr, st\<lparr>polls := Suc (polls st)\<rparr>)
      else
        case ScrapeJobsWithContext config e i params (st\<lparr>polls := Suc (polls st)\<rparr>) of
          ((jobs, Some err), st1) \<Rightarrow> (Some (ScrapingPage i err), st1)
        | ((jobs, None), st1) \<Rightarrow>
            (case send_jobs e jobs st1 of
               (Some err, st2) \<Rightarrow> (Some err, st2)
             | (None, st2) \<Rightarrow> scan_pages config e params pages st2))"

text \<open>
  \<^verbatim>\<open>for i := range numPages\<close> runs \<open>i\<close> from 0 to \<open>numPages - 1\<close>, and not at all for a
  \<open>numPages\<close> that is not positive.
\<close>

definition ScrapeLinkedInJobsStreaming ::
  "Config \<Rightarrow> env \<Rightarrow> int \<Rightarrow> SearchQuery \<Rightarrow> error option \<times> sstate" where
  "ScrapeLinkedInJobsStreaming config e numPages params =
     scan_pages config e params (map int [0..<nat numPages]) sstate0"

text \<open>
  \<^verbatim>\<open>ScrapeJobDescriptionWithContext\<close>, with the tail of \<^verbatim>\<open>parseJobDescription\<close>: the
  description is trimmed, and an empty one is the error \<open>DescriptionNotFound\<close>.
\<close>

definition ScrapeJobDescriptionWithContext ::
  "Config \<Rightarrow> env \<Rightarrow> Job \<Rightarrow> error + string \<times> (string \<rightharpoonup> string)" where
  "ScrapeJobDescriptionWithContext config e job =
     (let url = buildJobDescriptionSearchURL (JobLink job)
      in case fst (RetryableHTTPRequestImpl_RetryableHTTPRequest (retry_config config)
                     (site e url)) of
           Inl err \<Rightarrow> Inl err
         | Inr res \<Rightarrow>
             (case detail_at e url of
                Inl err \<Rightarrow> Inl (DocumentError err)
              | Inr (text, jobCriteria) \<Rightarrow>
                  if TrimSpace text = [] then Inl DescriptionNotFound
                  else Inr (TrimSpace (TrimSpace text), jobCriteria)))"


text \<open>The number a string of decimal digits denotes.\<close>

definition dec_value :: "string \<Rightarrow> nat" where
  "dec_value ds = foldl (\<lambda>n c. n * 10 + digit_val c) 0 ds"

section \<open>A concrete environment\<close>

subsection \<open>\<^verbatim>\<open>url.Parse\<close>, as far as the path\<close>

text \<open>
  The steps of \<^verbatim>\<open>net/url.Parse\<close> that decide the \<^verbatim>\<open>Path\<close> of the result: the fragment
  is cut off at \<^verbatim>\<open>#\<close>, control bytes are refused, the scheme and the query are split
  off, a rootless rest after a scheme is opaque (the path is empty), a first segment with
  a colon is refused, an authority after \<^verbatim>\<open>//\<close> is split off, and the rest is
  unescaped. The authority itself (host, port, user) is accepted as it is; Go validates
  it, which the examples below do not depend on.
\<close>

definition ishex :: "char \<Rightarrow> bool" where
  "ishex c =
     (let n = (of_char c :: nat)
      in (48 \<le> n \<and> n \<le> 57) \<or> (97 \<le> n \<and> n \<le> 102) \<or> (65 \<le> n \<and> n \<le> 70))"

definition unhex :: "char \<Rightarrow> nat" where
  "unhex c =
     (let n = (of_char c :: nat)
      in if 48 \<le> n \<and> n \<le> 57 then n - 48
         else if 97 \<le> n \<and> n \<le> 102 then n - 97 + 10
         else if 65 \<le> n \<and> n \<le> 70 then n - 65 + 10
         else 0)"

fun unescape :: "string \<Rightarrow> string + string" where
  "unescape [] = Inr []"
| "unescape (c # cs) =
     (if c = CHR ''%'' then
        (case cs of
           a # b # rest \<Rightarrow>
             if ishex a \<and> ishex b then
               (case unescape rest of
                  Inl err \<Rightarrow> Inl err
                | Inr t \<Rightarrow> Inr (char_of (16 * unhex a + unhex b) # t))
             else Inl ''invalid URL escape''
         | _ \<Rightarrow> Inl ''invalid URL escape'')
      else
        (case unescape cs of Inl err \<Rightarrow> Inl err | Inr t \<Rightarrow> Inr (c # t)))"

definition is_alpha :: "char \<Rightarrow> bool" where
  "is_alpha c =
     (let n = (of_char c :: nat) in (97 \<le> n \<and> n \<le> 122) \<or> (65 \<le> n \<and> n \<le> 90))"

text \<open>\<^verbatim>\<open>getScheme\<close>; \<open>seen\<close> are the bytes before the one looked at.\<close>

fun getScheme :: "string \<Rightarrow> string \<Rightarrow> string \<Rightarrow> string + string \<times> string" where
  "getScheme rawURL seen [] = Inr ([], rawURL)"
| "getScheme rawURL seen (c # cs) =
     (if is_alpha c then getScheme rawURL (seen @ [c]) cs
      else if is_digit c \<or> c \<in> set ''+-.'' then
        (if seen = [] then Inr ([], rawURL) else getScheme rawURL (seen @ [c]) cs)
      else if c = CHR '':'' then
        (if seen = [] then Inl ''missing protocol scheme'' else Inr (seen, cs))
      else Inr ([], rawURL))"

definition cut_at :: "char \<Rightarrow> string \<Rightarrow> string \<times> string" where
  "cut_at sep s = (takeWhile (\<lambda>c. c \<noteq> sep) s, drop 1 (dropWhile (\<lambda>c. c \<noteq> sep) s))"

definition parse_Path :: "string \<Rightarrow> string + string" where
  "parse_Path rawURL =
     (if list_ex (\<lambda>c. (of_char c :: nat) < 32 \<or> (of_char c :: nat) = 127) rawURL then
        Inl ''net/url: invalid control character in URL''
      else if rawURL = ''*'' then Inr ''*''
      else
        case getScheme rawURL [] rawURL of
          Inl err \<Rightarrow> Inl err
        | Inr (scheme, rest0) \<Rightarrow>
            let rest = fst (cut_at (CHR ''?'') rest0)
            in if take 1 rest \<noteq> ''/'' \<and> scheme \<noteq> [] then Inr []
               else if take 1 rest \<noteq> ''/'' \<and> CHR '':'' \<in> set (fst (cut_at (CHR ''/'') rest)) then
                 Inl ''first path segment in URL cannot contain colon''
               else if take 2 rest = ''//'' \<and> (scheme \<noteq> [] \<or> take 3 rest \<noteq> ''///'') then
                 unescape (dropWhile (\<lambda>c. c \<noteq> CHR ''/'') (drop 2 rest))
               else unescape rest)"

definition net_url_Parse :: "string \<Rightarrow> string + string" where
  "net_url_Parse rawURL =
     (case parse_Path (fst (cut_at (CHR ''#'') rawURL)) of
        Inl err \<Rightarrow> Inl err
      | Inr p \<Rightarrow>
          (case unescape (snd (cut_at (CHR ''#'') rawURL)) of
             Inl err \<Rightarrow> Inl err
           | Inr frag \<Rightarrow> Inr p))"

subsection \<open>A site with well-formed pages\<close>

text \<open>The configuration and the query of \<^verbatim>\<open>main\<close>.\<close>

definition main_Config :: Config where
  "main_Config =
     \<lparr>Timespan = ''r604800'', Distance = ''25'', SortBy = ''R'', ConfigMaxRetries = 3,
      ConfigBaseDelay = 1 * Second, ConfigMaxDelay = 30 * Second,
      RequestTimeout = 30 * Second\<rparr>"

definition main_query :: SearchQuery where
  "main_query =
     \<lparr>Keywords = ''Frontend Developer'', QueryLocation = ''Japan'', FWT = ''2,3'', GeoId = []\<rparr>"

definition card_12345 :: card where
  "card_12345 =
     \<lparr>title_text = '' Frontend Developer '', company_text = ''Acme'',
      company_href = ''https://jp.linkedin.com/company/acme'', location_text = ''Tokyo'',
      link_href = ''https://jp.linkedin.com/jobs/view/frontend-developer-12345?position=1''\<rparr>"

definition card_no_digits :: card where
  "card_no_digits =
     \<lparr>title_text = ''Frontend Developer'', company_text = ''Acme'',
      company_href = ''https://jp.linkedin.com/company/acme'', location_text = ''Tokyo'',
      link_href = ''https://jp.linkedin.com/jobs/view/frontend-developer''\<rparr>"

text \<open>
  Every request is answered \<^verbatim>\<open>200 OK\<close> at the first attempt, every listing page holds
  the cards \<open>cards\<close>, every detail page has a description, and the token never fires.
\<close>

definition site_with :: "card list \<Rightarrow> env" where
  "site_with cards =
     \<lparr>url_Parse = net_url_Parse,
      site = (\<lambda>url. world_of [resp 200 ''200 OK''] None),
      page_at = (\<lambda>url. Inr cards),
      detail_at = (\<lambda>url. Inr (''We are hiring.'', Map.empty)),
      done_at = (\<lambda>n. False)\<rparr>"


section \<open>The detail workers\<close>

text \<open>
  Modelled from the spec: the declarations of \<^verbatim>\<open>models.JobDescription\<close> and
  \<^verbatim>\<open>models.JobWithDescription\<close> are not among the sources. Their fields are those of the
  composite literal in \<^verbatim>\<open>GetJobDescription\<close> and of the reads in the repositories; they
  are the specification's DetailRecord (owning listing identifier, description, criteria)
  and the pair of a listing record with its detail record.
\<close>

record JobDescription =
  JobID :: int
  Description :: string
  Criteria :: "string \<rightharpoonup> string"

record JobWithDescription =
  Job :: Job
  JobDescription :: JobDescription

text \<open>
  \<^verbatim>\<open>pipeline.JobDescriptionResult\<close>. Its fields \<^verbatim>\<open>Job\<close>, \<^verbatim>\<open>Description\<close>, \<^verbatim>\<open>Criteria\<close>
  and \<^verbatim>\<open>Error\<close> carry the prefix \<open>Result\<close> here.
\<close>

record JobDescriptionResult =
  ResultJob :: Job
  ResultDescription :: string
  ResultCriteria :: "string \<rightharpoonup> string"
  ResultError :: "error option"

text \<open>
  What an observer sees of one worker: the number of its \<^verbatim>\<open>select\<close>s on the token, the
  jobs it called \<^verbatim>\<open>ScrapeJobDescriptionWithContext\<close> for, the errors it logged and the
  values it sent on its output channel, each in order.
\<close>

record 'r wstate =
  wpolls :: nat
  fetched :: "Job list"
  logged :: "error list"
  sent :: "'r list"

definition wstate0 :: "'r wstate" where
  "wstate0 = \<lparr>wpolls = 0, fetched = [], logged = [], sent = []\<rparr>"

text \<open>
  The goroutine that \<^verbatim>\<open>GetJobDescription\<close> starts three times, run on the jobs it
  receives from \<^verbatim>\<open>jobChan\<close> until the channel is closed:
  \<^verbatim>\<open>for job := range jobChan { select { case <-context.Done(): return; default: } ... }\<close>.
  An error of the scrape is logged; only a success is sent.
\<close>

fun GetJobDescription_worker ::
  "Config \<Rightarrow> env \<Rightarrow> Job list \<Rightarrow> JobWithDescription wstate \<Rightarrow> JobWithDescription wstate" where
  "GetJobDescription_worker config e [] st = st"
| "GetJobDescription_worker config e (job # jobs) st =
     (if done_at e (wpolls st) then st\<lparr>wpolls := Suc (wpolls st)\<rparr>
      else
        let st1 = st\<lparr>wpolls := Suc (wpolls st), fetched := fetched st @ [job]\<rparr>
        in case ScrapeJobDescriptionWithContext config e job of
             Inl err \<Rightarrow>
               GetJobDescription_worker config e jobs (st1\<lparr>logged := logged st1 @ [err]\<rparr>)
           | Inr (jd, jc) \<Rightarrow>
               GetJobDescription_worker config e jobs
                 (st1\<lparr>sent := sent st1 @
                    [\<lparr>Job = job,
                      JobDescription = \<lparr>JobID = ID job, Description = jd, Criteria = jc\<rparr>\<rparr>]\<rparr>))"

text \<open>
  The result \<^verbatim>\<open>jobDescriptionWorker\<close> builds from what
  \<^verbatim>\<open>ScrapeJobDescriptionWithContext\<close> returns; beside an error that function returns the
  empty description and an empty map.
\<close>

definition result_for :: "Config \<Rightarrow> env \<Rightarrow> Job \<Rightarrow> JobDescriptionResult" where
  "result_for config e job =
     (case ScrapeJobDescriptionWithContext config e job of
        Inl err \<Rightarrow>
          \<lparr>ResultJob = job, ResultDescription = [], ResultCriteria = Map.empty,
           ResultError = Some err\<rparr>
      | Inr (description, criteria) \<Rightarrow>
          \<lparr>ResultJob = job, ResultDescription = description, ResultCriteria = criteria,
           ResultError = None\<rparr>)"

text \<open>
  \<^verbatim>\<open>(*JobPipeline).jobDescriptionWorker\<close>, run on the jobs it receives. It consults the
  token three times for each job: in the \<^verbatim>\<open>select\<close> that receives the job, in
  \<^verbatim>\<open>limiter.Wait(ctx)\<close>, and in the \<^verbatim>\<open>select\<close> that sends the result. The time the rate
  limiter makes it wait is not modelled.
\<close>

fun jobDescriptionWorker ::
  "Config \<Rightarrow> env \<Rightarrow> Job list \<Rightarrow> JobDescriptionResult wstate \<Rightarrow> JobDescriptionResult wstate" where
  "jobDescriptionWorker config e [] st = st\<lparr>wpolls := Suc (wpolls st)\<rparr>"
| "jobDescriptionWorker config e (job # jobs) st =
     (if done_at e (wpolls st) then st\<lparr>wpolls := Suc (wpolls st)\<rparr>
      else if done_at e (Suc (wpolls st)) then st\<lparr>wpolls := Suc (Suc (wpolls st))\<rparr>
      else
        let result = result_for config e job;
            st1 = st\<lparr>wpolls := Suc (Suc (Suc (wpolls st))), fetched := fetched st @ [job]\<rparr>
        in if done_at e (Suc (Suc (wpolls st))) then st1
           else jobDescriptionWorker config e jobs (st1\<lparr>sent := sent st1 @ [result]\<rparr>))"

section \<open>The worker pool of \<^verbatim>\<open>GetJobDescription\<close> as a transition system\<close>

text \<open>
  The goroutines of \<^verbatim>\<open>GetJobDescription\<close> and around it, each with a program counter,
  and the state they share. A schedule is a list of actions; an action that is not enabled
  (a goroutine that is blocked or has ended) yields \<open>None\<close>.
  \<^item> The calling goroutine: \<^verbatim>\<open>wg.Add(1)\<close> and \<^verbatim>\<open>go\<close> for each of the three workers, then
    \<^verbatim>\<open>go\<close> for the goroutine that closes the output.
  \<^item> A worker is at the head of its \<^verbatim>\<open>range\<close> loop, holds a job it has received, is
    about to send a result, or has returned and run its deferred \<^verbatim>\<open>wg.Done()\<close>.
  \<^item> The closing goroutine waits in \<^verbatim>\<open>wg.Wait()\<close>, then closes \<^verbatim>\<open>jobDescriptionChan\<close>.
  \<^item> The consumer is the \<^verbatim>\<open>range\<close> loop of \<^verbatim>\<open>ProcessJobsStreaming\<close> over the output.
  \<^item> The scanner sends jobs on \<^verbatim>\<open>jobChan\<close> and closes it; the token may fire.
\<close>

datatype worker_pc = Ranging | Holding Job | Sending JobWithDescription | Exited

datatype main_pc = AtAdd nat | AtGo nat | AtCloser | Returned

datatype closer_pc = NotStarted | Waiting | Closing | Finished

datatype action =
    MainStep | WorkerStep nat | CloserStep | ConsumerStep
  | Produce Job | CloseInput | Cancel

record pool =
  main :: main_pc
  workers :: "worker_pc list"
  wg :: int
  closer :: closer_pc
  jobChan :: "Job list"
  jobChan_closed :: bool
  jobDescriptionChan :: "JobWithDescription list"
  jobDescriptionChan_closed :: bool
  ctx_done :: bool
  received :: "JobWithDescription list"
  consumer_done :: bool
  panicked :: bool

definition numWorkers :: nat where
  "numWorkers = 3"

text \<open>Both channels are made with a buffer of 100.\<close>

definition chan_cap :: nat where
  "chan_cap = 100"

definition pool0 :: pool where
  "pool0 =
     \<lparr>main = AtAdd 0, workers = [], wg = 0, closer = NotStarted,
      jobChan = [], jobChan_closed = False,
      jobDescriptionChan = [], jobDescriptionChan_closed = False,
      ctx_done = False, received = [], consumer_done = False, panicked = False\<rparr>"

definition main_step :: "pool \<Rightarrow> pool option" where
  "main_step s =
     (case main s of
        AtAdd k \<Rightarrow> Some (s\<lparr>wg := wg s + 1, main := AtGo k\<rparr>)
      | AtGo k \<Rightarrow>
          Some (s\<lparr>workers := workers s @ [Ranging],
                  main := (if Suc k < numWorkers then AtAdd (Suc k) else AtCloser)\<rparr>)
      | AtCloser \<Rightarrow> Some (s\<lparr>closer := Waiting, main := Returned\<rparr>)
      | Returned \<Rightarrow> None)"

text \<open>
  One step of worker \<open>i\<close>. Returning, from wherever, runs the deferred \<^verbatim>\<open>wg.Done()\<close>. A
  send on a closed channel panics.
\<close>

definition worker_step :: "Config \<Rightarrow> env \<Rightarrow> nat \<Rightarrow> pool \<Rightarrow> pool option" where
  "worker_step config e i s =
     (if length (workers s) \<le> i then None
      else
        case workers s ! i of
          Ranging \<Rightarrow>
            (case jobChan s of
               job # rest \<Rightarrow> Some (s\<lparr>jobChan := rest, workers := (workers s)[i := Holding job]\<rparr>)
             | [] \<Rightarrow>
                 if jobChan_closed s
                 then Some (s\<lparr>workers := (workers s)[i := Exited], wg := wg s - 1\<rparr>)
                 else None)
        | Holding job \<Rightarrow>
            if ctx_done s
            then Some (s\<lparr>workers := (workers s)[i := Exited], wg := wg s - 1\<rparr>)
            else
              (case ScrapeJobDescriptionWithContext config e job of
                 Inl err \<Rightarrow> Some (s\<lparr>workers := (workers s)[i := Ranging]\<rparr>)
               | Inr (jd, jc) \<Rightarrow>
                   Some (s\<lparr>workers := (workers s)[i := Sending
                     \<lparr>Job = job,
                      JobDescription = \<lparr>JobID = ID job, Description = jd, Criteria = jc\<rparr>\<rparr>]\<rparr>))
        | Sending r \<Rightarrow>
            if jobDescriptionChan_closed s then Some (s\<lparr>panicked := True\<rparr>)
            else if length (jobDescriptionChan s) < chan_cap
            then Some (s\<lparr>jobDescriptionChan := jobDescriptionChan s @ [r],
                         workers := (workers s)[i := Ranging]\<rparr>)
            else None
        | Exited \<Rightarrow> None)"

definition closer_step :: "pool \<Rightarrow> pool option" where
  "closer_step s =
     (case closer s of
        NotStarted \<Rightarrow> None
      | Waiting \<Rightarrow> if wg s = 0 then Some (s\<lparr>closer := Closing\<rparr>) else None
      | Closing \<Rightarrow> Some (s\<lparr>jobDescriptionChan_closed := True, closer := Finished\<rparr>)
      | Finished \<Rightarrow> None)"

definition consumer_step :: "pool \<Rightarrow> pool option" where
  "consumer_step s =
     (if consumer_done s then None
      else
        case jobDescriptionChan s of
          r # rest \<Rightarrow> Some (s\<lparr>jobDescriptionChan := rest, received := received s @ [r]\<rparr>)
        | [] \<Rightarrow> if jobDescriptionChan_closed s then Some (s\<lparr>consumer_done := True\<rparr>) else None)"

definition fire :: "Config \<Rightarrow> env \<Rightarrow> action \<Rightarrow> pool \<Rightarrow> pool option" where
  "fire config e a s =
     (if panicked s then None
      else
        case a of
          MainStep \<Rightarrow> main_step s
        | WorkerStep i \<Rightarrow> worker_step config e i s
        | CloserStep \<Rightarrow> closer_step s
        | ConsumerStep \<Rightarrow> consumer_step s
        | Produce job \<Rightarrow>
            if \<not> jobChan_closed s \<and> length (jobChan s) < chan_cap
            then Some (s\<lparr>jobChan := jobChan s @ [job]\<rparr>) else None
        | CloseInput \<Rightarrow>
            if jobChan_closed s then None else Some (s\<lparr>jobChan_closed := True\<rparr>)
        | Cancel \<Rightarrow> Some (s\<lparr>ctx_done := True\<rparr>))"

fun run_schedule :: "Config \<Rightarrow> env \<Rightarrow> action list \<Rightarrow> pool \<Rightarrow> pool option" where
  "run_schedule config e [] s = Some s"
| "run_schedule config e (a # acts) s =
     (case fire config e a s of None \<Rightarrow> None | Some s' \<Rightarrow> run_schedule config e acts s')"

text \<open>The workers that have not returned.\<close>

definition live :: "worker_pc list \<Rightarrow> nat" where
  "live ws = length (filter (\<lambda>w. w \<noteq> Exited) ws)"

text \<open>
  Of the caller's program counter: the number of workers it has started, the amount it
  has added to the wait group for a worker it has not started yet, and the bound of its
  loop.
\<close>

fun started :: "main_pc \<Rightarrow> nat" where
  "started (AtAdd k) = k"
| "started (AtGo k) = k"
| "started AtCloser = numWorkers"
| "started Returned = numWorkers"

fun pending :: "main_pc \<Rightarrow> int" where
  "pending (AtGo k) = 1"
| "pending pc = 0"

fun in_loop_bound :: "main_pc \<Rightarrow> bool" where
  "in_loop_bound (AtAdd k) = (k < numWorkers)"
| "in_loop_bound (AtGo k) = (k < numWorkers)"
| "in_loop_bound pc = True"

text \<open>
  The invariant of the pool: the counter of the wait group is the number of live workers
  (and one more between \<^verbatim>\<open>wg.Add(1)\<close> and the \<^verbatim>\<open>go\<close> that follows it); the closing
  goroutine runs only after the caller started all three workers; it is past
  \<^verbatim>\<open>wg.Wait()\<close> only when no worker is live; the output is closed only by it.
\<close>

definition pool_inv :: "pool \<Rightarrow> bool" where
  "pool_inv s =
     (length (workers s) = started (main s)
      \<and> in_loop_bound (main s)
      \<and> wg s = int (live (workers s)) + pending (main s)
      \<and> ((closer s = NotStarted) = (main s \<noteq> Returned))
      \<and> (closer s = Closing \<or> closer s = Finished \<longrightarrow> live (workers s) = 0)
      \<and> (jobDescriptionChan_closed s = (closer s = Finished))
      \<and> \<not> panicked s)"

text \<open>
  The schedule in which only the closing goroutine and the consumer move (and the caller,
  when all it has left to do is to start the closing goroutine): the steps up to the
  \<^verbatim>\<open>close\<close>, and the consumer's receives up to the end of its loop.
\<close>

definition drain_schedule :: "pool \<Rightarrow> action list" where
  "drain_schedule s =
     (if main s = AtCloser then [MainStep, CloserStep, CloserStep]
      else case closer s of
             Waiting \<Rightarrow> [CloserStep, CloserStep]
           | Closing \<Rightarrow> [CloserStep]
           | _ \<Rightarrow> [])
     @ replicate (Suc (length (jobDescriptionChan s))) ConsumerStep"


subsection \<open>A job, a site without descriptions, and a schedule of the pool\<close>

definition job_12345 :: Job where
  "job_12345 =
     \<lparr>ID = 12345, Title = ''Frontend Developer'', Company = ''Acme'',
      CompanyLink = ''https://jp.linkedin.com/company/acme'', Location = ''Tokyo'',
      JobLink = ''https://jp.linkedin.com/jobs/view/frontend-developer-12345?position=1''\<rparr>"

text \<open>As \<open>site_with []\<close>, but the description section of every detail page is blank.\<close>

definition site_without_descriptions :: env where
  "site_without_descriptions =
     (site_with [])\<lparr>detail_at := (\<lambda>url. Inr (''  '', Map.empty))\<rparr>"

text \<open>
  The caller starts the three workers and the closing goroutine; the scanner sends one
  job; worker 0 receives it, scrapes it and sends the result; the scanner closes
  \<^verbatim>\<open>jobChan\<close>; the three workers return; the closing goroutine passes \<^verbatim>\<open>wg.Wait()\<close> and
  closes the output.
\<close>

definition example_schedule :: "action list" where
  "example_schedule =
     [MainStep, MainStep, MainStep, MainStep, MainStep, MainStep, MainStep,
      Produce job_12345, WorkerStep 0, WorkerStep 0, WorkerStep 0, CloseInput,
      WorkerStep 0, WorkerStep 1, WorkerStep 2, CloserStep, CloserStep]"


section \<open>Persistence and the orchestrator\<close>

text \<open>
  The statements the two repositories hand to \<^verbatim>\<open>db.Exec\<close>, by their rows: the
  \<^verbatim>\<open>INSERT INTO jobs ... ON CONFLICT (id) DO UPDATE SET\<close> of every other column, and the
  \<^verbatim>\<open>INSERT INTO job_descriptions ... ON CONFLICT (job_id) DO UPDATE SET\<close> of the
  description, the criteria and \<^verbatim>\<open>updated_at\<close>. (The text of the statement, with its
  numbered placeholders, is not modelled.)
\<close>

datatype statement = UpsertJobs "Job list" | UpsertJobDescriptions "JobDescription list"

record description_row =
  row_description :: string
  row_job_criteria :: "string \<rightharpoonup> string"
  updated_at :: int

text \<open>
  Modelled from the spec: the schema and the migrations are not among the sources, and the
  database is a collaborator. It holds the two tables, keyed by \<^verbatim>\<open>id\<close> and by
  \<^verbatim>\<open>job_id\<close>; \<open>executed\<close> records every statement handed to \<^verbatim>\<open>db.Exec\<close>.
  A statement fails as a whole when the database cannot be reached, when two of its rows
  have the same key (PostgreSQL refuses to let one \<^verbatim>\<open>ON CONFLICT DO UPDATE\<close> affect a row
  twice), or when a description names a job that is not in the jobs table (the referential
  dependency of the specification). Otherwise every row is inserted, or replaces the
  columns of the row with its key.
\<close>

record database =
  online :: bool
  jobs_table :: "int \<rightharpoonup> Job"
  job_descriptions_table :: "int \<rightharpoonup> description_row"
  executed :: "statement list"
  current_timestamp :: int

definition Exec :: "statement \<Rightarrow> database \<Rightarrow> error option \<times> database" where
  "Exec stmt db =
     (let db1 = db\<lparr>executed := executed db @ [stmt]\<rparr>
      in if \<not> online db then (Some (ExecError ''connection refused''), db1)
         else
           case stmt of
             UpsertJobs rows \<Rightarrow>
               if \<not> distinct (map ID rows)
               then (Some (ExecError
                       ''ON CONFLICT DO UPDATE command cannot affect row a second time''), db1)
               else (None, db1\<lparr>jobs_table :=
                       fold (\<lambda>job t. t(ID job \<mapsto> job)) rows (jobs_table db)\<rparr>)
           | UpsertJobDescriptions rows \<Rightarrow>
               if \<not> distinct (map JobID rows)
               then (Some (ExecError
                       ''ON CONFLICT DO UPDATE command cannot affect row a second time''), db1)
               else if list_ex (\<lambda>jd. jobs_table db (JobID jd) = None) rows
               then (Some (ExecError ''violates foreign key constraint''), db1)
               else (None, db1\<lparr>job_descriptions_table :=
                       fold (\<lambda>jd t. t(JobID jd \<mapsto>
                               \<lparr>row_description = Description jd,
                                row_job_criteria = Criteria jd,
                                updated_at = current_timestamp db\<rparr>))
                         rows (job_descriptions_table db)\<rparr>))"

text \<open>
  \<^verbatim>\<open>(*JobRepository).SaveJobs\<close>. \<^verbatim>\<open>jobMap\<close> is a Go map from identifiers to jobs, here an
  association list with one entry for each key; \<^verbatim>\<open>jobMap[job.ID] = job\<close> replaces the
  entry of the key or adds one. Go iterates over a map in an order it does not specify:
  \<open>range_order\<close> is the order in which \<^verbatim>\<open>for _, job := range jobMap\<close> visits the
  entries.
\<close>

definition SaveJobs ::
  "(Job list \<Rightarrow> Job list) \<Rightarrow> Job list \<Rightarrow> database \<Rightarrow> error option \<times> database" where
  "SaveJobs range_order jobs db =
     (if length jobs = 0 then (None, db)
      else
        let jobMap = fold (\<lambda>job m. AList.update (ID job) job m) jobs [];
            uniqueJobs = range_order (map snd jobMap)
        in case Exec (UpsertJobs uniqueJobs) db of
             (Some err, db') \<Rightarrow> (Some (InsertingJobs err), db')
           | (None, db') \<Rightarrow> (None, db'))"

text \<open>
  \<^verbatim>\<open>(*JobDescriptionRepository).SaveJobDescriptions\<close>. \<^verbatim>\<open>json.Marshal\<close> of a
  \<^verbatim>\<open>map[string]string\<close> does not fail, so the loop that builds the rows never returns.
\<close>

definition SaveJobDescriptions ::
  "JobDescription list \<Rightarrow> database \<Rightarrow> error option \<times> database" where
  "SaveJobDescriptions jobDescriptions db =
     (if length jobDescriptions = 0 then (None, db)
      else
        case Exec (UpsertJobDescriptions jobDescriptions) db of
          (Some err, db') \<Rightarrow> (Some (SavingJobDescriptions err), db')
        | (None, db') \<Rightarrow> (None, db'))"

text \<open>
  \<^verbatim>\<open>(*JobPipeline).ProcessJobsStreaming\<close>, from the point where it ranges over
  \<^verbatim>\<open>jobWithDescriptionChan\<close>: \<open>stream\<close> is what the loop receives until the channel is
  closed (\<open>received\<close> of the pool when the consumer is done).
\<close>

definition ProcessJobsStreaming ::
  "(Job list \<Rightarrow> Job list) \<Rightarrow> JobWithDescription list \<Rightarrow> database
     \<Rightarrow> error option \<times> database" where
  "ProcessJobsStreaming range_order stream db =
     (let allJobs = fold (\<lambda>jobWithDescription acc. acc @ [Job jobWithDescription]) stream [];
          allJobDescriptions =
            fold (\<lambda>jobWithDescription acc. acc @ [JobDescription jobWithDescription]) stream []
      in case SaveJobs range_order allJobs db of
           (Some err, db1) \<Rightarrow> (Some (FailedToSaveJobs err), db1)
         | (None, db1) \<Rightarrow>
             (case SaveJobDescriptions allJobDescriptions db1 of
                (Some err, db2) \<Rightarrow> (Some (FailedToSaveJobDescriptions err), db2)
              | (None, db2) \<Rightarrow> (None, db2)))"

subsection \<open>An empty database, and a batch with one identifier twice\<close>

definition empty_db :: database where
  "empty_db =
     \<lparr>online = True, jobs_table = Map.empty, job_descriptions_table = Map.empty,
      executed = [], current_timestamp = 0\<rparr>"

definition job_retitled :: Job where
  "job_retitled = job_12345\<lparr>Title := ''Senior Frontend Developer''\<rparr>"


section \<open>Properties of the transport\<close>

lemma after_do_Retryable: "Retryable_outcome out \<Longrightarrow> after_do out = Inr (cause_of out)"
  by (auto simp: Retryable_outcome_def after_do_def cause_of_def split: do_outcome.splits)

lemma span_nonneg: "(\<forall>i. 0 \<le> do_took w i \<and> 0 \<le> d i) \<Longrightarrow> 0 \<le> span w d a k"
  by (induction k arbitrary: a) (auto intro!: add_nonneg_nonneg)

lemma retry_loop_retry_step:
  assumes "req_err w = None" "a < m" "Retryable_outcome (do_result w a)"
    and "\<forall>c. cancel_at w = Some c \<longrightarrow> clock st + do_took w a + d a \<le> c"
  shows "retry_loop m d w a l st =
     retry_loop m d w (a + 1) (Some (cause_of (do_result w a)))
       (st\<lparr>clock := clock st + do_took w a + d a, attempts := Suc (attempts st),
           slept := slept st @ [d a]\<rparr>)"
proof -
  have "backoff_select (cancel_at w) (clock st + do_took w a) (d a) =
          Inr (clock st + do_took w a + d a)"
    using assms(4) by (auto simp: backoff_select_def split: option.splits)
  then show ?thesis
    using assms(1-3)
    apply (subst retry_loop.simps)
    apply (simp add: after_do_Retryable Let_def)
    apply (rule arg_cong[where f = "retry_loop m d w (a + 1) (Some (cause_of (do_result w a)))"])
    apply simp
    done
qed

lemma retry_loop_skip:
  assumes "req_err w = None"
  shows "a + int k \<le> m \<Longrightarrow>
     (\<forall>i. a \<le> i \<and> i < a + int k \<longrightarrow> Retryable_outcome (do_result w i)) \<Longrightarrow>
     (\<forall>c. cancel_at w = Some c \<longrightarrow>
        (\<forall>i. 0 \<le> do_took w i \<and> 0 \<le> d i) \<and> clock st + span w d a k \<le> c) \<Longrightarrow>
     \<exists>st'. retry_loop m d w a l st =
            retry_loop m d w (a + int k)
              (if k = 0 then l else Some (cause_of (do_result w (a + int k - 1)))) st'
          \<and> clock st' = clock st + span w d a k
          \<and> attempts st' = attempts st + k
          \<and> slept st' = slept st @ map (\<lambda>j. d (a + int j)) [0..<k]"
proof (induction k arbitrary: a l st)
  case 0
  then show ?case by (intro exI[of _ st]) simp
next
  case (Suc k)
  let ?st1 = "st\<lparr>clock := clock st + do_took w a + d a, attempts := Suc (attempts st),
           slept := slept st @ [d a]\<rparr>"
  let ?l1 = "Some (cause_of (do_result w a))"
  have quiet1: "\<forall>c. cancel_at w = Some c \<longrightarrow> clock st + do_took w a + d a \<le> c"
  proof (intro allI impI)
    fix c assume c: "cancel_at w = Some c"
    then have "0 \<le> span w d (a + 1) k" using Suc.prems(3) by (intro span_nonneg) blast
    moreover have "clock st + span w d a (Suc k) \<le> c" using Suc.prems(3) c by blast
    ultimately show "clock st + do_took w a + d a \<le> c" by simp
  qed
  have step: "retry_loop m d w a l st = retry_loop m d w (a + 1) ?l1 ?st1"
    using Suc.prems(1,2) quiet1 by (intro retry_loop_retry_step assms) auto
  have "\<exists>st'. retry_loop m d w (a + 1) ?l1 ?st1 =
            retry_loop m d w (a + 1 + int k)
              (if k = 0 then ?l1 else Some (cause_of (do_result w (a + 1 + int k - 1)))) st'
          \<and> clock st' = clock ?st1 + span w d (a + 1) k
          \<and> attempts st' = attempts ?st1 + k
          \<and> slept st' = slept ?st1 @ map (\<lambda>j. d (a + 1 + int j)) [0..<k]"
    using Suc.prems by (intro Suc.IH) (auto simp: algebra_simps)
  then obtain st' where st':
    "retry_loop m d w (a + 1) ?l1 ?st1 =
       retry_loop m d w (a + 1 + int k)
         (if k = 0 then ?l1 else Some (cause_of (do_result w (a + 1 + int k - 1)))) st'"
    "clock st' = clock ?st1 + span w d (a + 1) k"
    "attempts st' = attempts ?st1 + k"
    "slept st' = slept ?st1 @ map (\<lambda>j. d (a + 1 + int j)) [0..<k]"
    by blast
  have m: "map (\<lambda>j. d (a + int j)) [0..<Suc k] = d a # map (\<lambda>j. d (a + 1 + int j)) [0..<k]"
    by (simp add: upt_conv_Cons map_Suc_upt[symmetric] del: upt_Suc)
       (simp add: add.commute add.left_commute)
  show ?case
    apply (rule exI[of _ st'])
    using step st' m by (auto simp: algebra_simps)
qed

lemma retry_loop_attempts_mono:
  "attempts st \<le> attempts (snd (retry_loop m d w a l st))"
proof (induction m d w a l st rule: retry_loop.induct)
  case (1 m d w a l st)
  show ?case
    apply (subst retry_loop.simps)
    using 1
    apply (auto simp: Let_def split: option.splits sum.splits)
      apply (meson Suc_leD)+
    done
qed

lemma retry_loop_slept_mono:
  "length (slept st) \<le> length (slept (snd (retry_loop m d w a l st)))"
proof (induction m d w a l st rule: retry_loop.induct)
  case (1 m d w a l st)
  show ?case
    apply (subst retry_loop.simps)
    using 1
    apply (auto simp: Let_def split: option.splits sum.splits)
    apply (meson Suc_leD)
    done
qed

lemma retry_loop_attempts_Suc:
  assumes "req_err w = None" "a \<le> m"
  shows "Suc (attempts st) \<le> attempts (snd (retry_loop m d w a l st))"
proof -
  let ?st1 = "st\<lparr>clock := clock st + do_took w a, attempts := Suc (attempts st)\<rparr>"
  show ?thesis
  proof (cases "after_do (do_result w a)")
    case (Inl r)
    then show ?thesis using assms by (subst retry_loop.simps) (simp add: Let_def)
  next
    case (Inr e)
    show ?thesis
    proof (cases "a < m")
      case True
      show ?thesis
      proof (cases "backoff_select (cancel_at w) (clock ?st1) (d a)")
        case (Inl t)
        then show ?thesis using assms Inr True by (subst retry_loop.simps) (simp add: Let_def)
      next
        case (Inr t)
        have "Suc (attempts st) \<le> attempts (snd (retry_loop m d w (a + 1) (Some e)
                 (?st1\<lparr>clock := t, slept := slept ?st1 @ [d a]\<rparr>)))"
          using retry_loop_attempts_mono[of "?st1\<lparr>clock := t, slept := slept ?st1 @ [d a]\<rparr>" m d w "a + 1" "Some e"]
          by simp
        then show ?thesis using assms \<open>after_do (do_result w a) = Inr e\<close> True Inr
          by (subst retry_loop.simps) (simp add: Let_def)
      qed
    next
      case False
      have "Suc (attempts st) \<le> attempts (snd (retry_loop m d w (a + 1) (Some e) ?st1))"
        using retry_loop_attempts_mono[of ?st1 m d w "a + 1" "Some e"] by simp
      then show ?thesis using assms Inr False
        by (subst retry_loop.simps) (simp add: Let_def)
    qed
  qed
qed

lemma retry_loop_prefix:
  assumes "req_err w = None" "int k \<le> m"
    "\<forall>i. 0 \<le> i \<and> i < int k \<longrightarrow> Retryable_outcome (do_result w i)"
    "\<forall>c. cancel_at w = Some c \<longrightarrow>
        (\<forall>i. 0 \<le> do_took w i \<and> 0 \<le> d i) \<and> span w d 0 k \<le> c"
  shows "\<exists>l' st'. retry_loop m d w 0 None tstate0 = retry_loop m d w (int k) l' st'
          \<and> (0 < k \<longrightarrow> l' = Some (cause_of (do_result w (int k - 1))))
          \<and> clock st' = span w d 0 k
          \<and> attempts st' = k \<and> slept st' = map (\<lambda>j. d (int j)) [0..<k]"
proof -
  obtain st' where "retry_loop m d w 0 None tstate0 =
            retry_loop m d w (0 + int k)
              (if k = 0 then None else Some (cause_of (do_result w (0 + int k - 1)))) st'"
          "clock st' = clock tstate0 + span w d 0 k"
          "attempts st' = attempts tstate0 + k"
          "slept st' = slept tstate0 @ map (\<lambda>j. d (0 + int j)) [0..<k]"
    using retry_loop_skip[OF assms(1), of 0 k m d tstate0 None] assms(2,3,4)
    by (auto simp: tstate0_def)
  then show ?thesis
    by (intro exI[of _ "if k = 0 then None else Some (cause_of (do_result w (0 + int k - 1)))"]
          exI[of _ st']) (simp add: tstate0_def)
qed

lemma retry_loop_return:
  assumes "req_err w = None" "a \<le> m" "after_do (do_result w a) = Inl r"
  shows "retry_loop m d w a l st =
           (r, st\<lparr>clock := clock st + do_took w a, attempts := Suc (attempts st)\<rparr>)"
  using assms by (subst retry_loop.simps) (simp add: Let_def)

lemma retry_loop_exhausted:
  assumes "req_err w = None" "Retryable_outcome (do_result w m)"
  shows "retry_loop m d w m l st =
           (Inl (AllRetriesFailed (Some (cause_of (do_result w m)))),
            st\<lparr>clock := clock st + do_took w m, attempts := Suc (attempts st)\<rparr>)"
  using assms
  apply (subst retry_loop.simps)
  apply (simp add: Let_def after_do_Retryable)
  apply (subst retry_loop.simps)
  apply simp
  done

lemma retry_loop_cancelled:
  assumes "req_err w = None" "a < m" "Retryable_outcome (do_result w a)"
    and "cancel_at w = Some c" "c < clock st + do_took w a + d a"
  shows "retry_loop m d w a l st =
           (Inl CtxErr, st\<lparr>clock := max (clock st + do_took w a) c,
                            attempts := Suc (attempts st)\<rparr>)"
  using assms
  apply (subst retry_loop.simps)
  apply (simp add: Let_def after_do_Retryable backoff_select_def)
  done

lemma outcome_classes_exclusive:
  "(Success_outcome out \<or> Retryable_outcome out \<or> Terminal_outcome out)
   \<and> \<not> (Success_outcome out \<and> Retryable_outcome out)
   \<and> \<not> (Success_outcome out \<and> Terminal_outcome out)
   \<and> \<not> (Retryable_outcome out \<and> Terminal_outcome out)"
  by (auto simp: Success_outcome_def Retryable_outcome_def Terminal_outcome_def
           split: do_outcome.splits)

lemma retry_loop_classified:
  assumes "req_err w = None" "cancel_at w = None" "int k \<le> m"
    "\<forall>i. 0 \<le> i \<and> i < int k \<longrightarrow> Retryable_outcome (do_result w i)"
  shows "(Success_outcome (do_result w (int k)) \<longrightarrow>
            (\<exists>r. do_result w (int k) = DoResp r \<and> fst (retry_loop m d w 0 None tstate0) = Inr r)
          \<and> attempts (snd (retry_loop m d w 0 None tstate0)) = Suc k
          \<and> slept (snd (retry_loop m d w 0 None tstate0)) = map (\<lambda>j. d (int j)) [0..<k])
       \<and> (Terminal_outcome (do_result w (int k)) \<longrightarrow>
           (\<exists>r. do_result w (int k) = DoResp r \<and>
            fst (retry_loop m d w 0 None tstate0) = Inl (RequestFailed (StatusCode r) (Status r)))
          \<and> attempts (snd (retry_loop m d w 0 None tstate0)) = Suc k
          \<and> slept (snd (retry_loop m d w 0 None tstate0)) = map (\<lambda>j. d (int j)) [0..<k])
       \<and> (Retryable_outcome (do_result w (int k)) \<and> int k < m \<longrightarrow>
            Suc (Suc k) \<le> attempts (snd (retry_loop m d w 0 None tstate0))
          \<and> Suc k \<le> length (slept (snd (retry_loop m d w 0 None tstate0))))"
proof -
  have quiet: "\<forall>c. cancel_at w = Some c \<longrightarrow>
        (\<forall>i. 0 \<le> do_took w i \<and> 0 \<le> d i) \<and> span w d 0 k \<le> c"
    using assms(2) by simp
  obtain l' st' where pre:
    "retry_loop m d w 0 None tstate0 = retry_loop m d w (int k) l' st'"
    "attempts st' = k" "slept st' = map (\<lambda>j. d (int j)) [0..<k]"
    using retry_loop_prefix[OF assms(1,3,4) quiet] by blast
  have A: "Success_outcome (do_result w (int k)) \<longrightarrow>
            (\<exists>r. do_result w (int k) = DoResp r \<and> fst (retry_loop m d w 0 None tstate0) = Inr r)
          \<and> attempts (snd (retry_loop m d w 0 None tstate0)) = Suc k
          \<and> slept (snd (retry_loop m d w 0 None tstate0)) = map (\<lambda>j. d (int j)) [0..<k]"
  proof
    assume "Success_outcome (do_result w (int k))"
    then obtain r where r: "do_result w (int k) = DoResp r"
        "200 \<le> StatusCode r \<and> StatusCode r < 300"
      by (auto simp: Success_outcome_def split: do_outcome.splits)
    then have "after_do (do_result w (int k)) = Inl (Inr r)" by (simp add: after_do_def)
    from retry_loop_return[OF assms(1) assms(3) this, of d l' st'] pre r
    show "(\<exists>r. do_result w (int k) = DoResp r \<and> fst (retry_loop m d w 0 None tstate0) = Inr r)
          \<and> attempts (snd (retry_loop m d w 0 None tstate0)) = Suc k
          \<and> slept (snd (retry_loop m d w 0 None tstate0)) = map (\<lambda>j. d (int j)) [0..<k]"
      by simp
  qed
  have B: "Terminal_outcome (do_result w (int k)) \<longrightarrow>
           (\<exists>r. do_result w (int k) = DoResp r \<and>
            fst (retry_loop m d w 0 None tstate0) = Inl (RequestFailed (StatusCode r) (Status r)))
          \<and> attempts (snd (retry_loop m d w 0 None tstate0)) = Suc k
          \<and> slept (snd (retry_loop m d w 0 None tstate0)) = map (\<lambda>j. d (int j)) [0..<k]"
  proof
    assume "Terminal_outcome (do_result w (int k))"
    then obtain r where r: "do_result w (int k) = DoResp r"
        "\<not> (200 \<le> StatusCode r \<and> StatusCode r < 300)" "StatusCode r \<noteq> 429"
      by (auto simp: Terminal_outcome_def split: do_outcome.splits)
    then have "after_do (do_result w (int k)) = Inl (Inl (RequestFailed (StatusCode r) (Status r)))"
      by (simp add: after_do_def)
    from retry_loop_return[OF assms(1) assms(3) this, of d l' st'] pre r
    show "(\<exists>r. do_result w (int k) = DoResp r \<and>
            fst (retry_loop m d w 0 None tstate0) = Inl (RequestFailed (StatusCode r) (Status r)))
          \<and> attempts (snd (retry_loop m d w 0 None tstate0)) = Suc k
          \<and> slept (snd (retry_loop m d w 0 None tstate0)) = map (\<lambda>j. d (int j)) [0..<k]"
      by simp
  qed
  have C: "Retryable_outcome (do_result w (int k)) \<and> int k < m \<longrightarrow>
            Suc (Suc k) \<le> attempts (snd (retry_loop m d w 0 None tstate0))
          \<and> Suc k \<le> length (slept (snd (retry_loop m d w 0 None tstate0)))"
  proof
    assume h: "Retryable_outcome (do_result w (int k)) \<and> int k < m"
    have all: "\<forall>i. 0 \<le> i \<and> i < int (Suc k) \<longrightarrow> Retryable_outcome (do_result w i)"
    proof (intro allI impI)
      fix i assume i: "0 \<le> i \<and> i < int (Suc k)"
      then have "i < int k \<or> i = int k" by auto
      then show "Retryable_outcome (do_result w i)" using assms(4) h i by auto
    qed
    have le: "int (Suc k) \<le> m" using h by simp
    have quiet': "\<forall>c. cancel_at w = Some c \<longrightarrow>
        (\<forall>i. 0 \<le> do_took w i \<and> 0 \<le> d i) \<and> span w d 0 (Suc k) \<le> c"
      using assms(2) by simp
    obtain l2 st2 where nxt:
      "retry_loop m d w 0 None tstate0 = retry_loop m d w (int (Suc k)) l2 st2"
      "attempts st2 = Suc k" "slept st2 = map (\<lambda>j. d (int j)) [0..<Suc k]"
      using retry_loop_prefix[OF assms(1) le all quiet'] by blast
    have "Suc (attempts st2) \<le> attempts (snd (retry_loop m d w (int (Suc k)) l2 st2))"
      using retry_loop_attempts_Suc[OF assms(1) le] .
    moreover have "length (slept st2) \<le> length (slept (snd (retry_loop m d w (int (Suc k)) l2 st2)))"
      by (rule retry_loop_slept_mono)
    ultimately show "Suc (Suc k) \<le> attempts (snd (retry_loop m d w 0 None tstate0))
          \<and> Suc k \<le> length (slept (snd (retry_loop m d w 0 None tstate0)))"
      using nxt by simp
  qed
  from A B C show ?thesis by blast
qed

lemma map_const_upt: "map (\<lambda>j. c) [0..<k] = replicate k c"
  by (induction k) (simp_all add: replicate_append_same)

text \<open>
  Claim C1. Take a call in which the request can be built and the token never fires, and
  let the first \<open>k\<close> attempts (numbered from 0) all have had a retryable outcome. The
  outcome of attempt \<open>k\<close> falls into exactly one of the three classes, and, for both
  transports, as long as attempt \<open>k\<close> is within the bound:
  \<^item> a 2xx response is returned at once: the call has made \<open>k + 1\<close> attempts, and the
    only delays are the \<open>k\<close> that preceded attempt \<open>k\<close>;
  \<^item> any other status but 429 is returned at once as the error \<open>RequestFailed\<close>, again
    after \<open>k + 1\<close> attempts and with no delay after attempt \<open>k\<close> (none at all for
    \<open>k = 0\<close>);
  \<^item> a network error or a 429, when attempts remain, is followed by one more delay and
    one more attempt.
\<close>

theorem transport_classifies_each_attempt:
  assumes "req_err w = None" and "cancel_at w = None"
    and "\<forall>i. 0 \<le> i \<and> i < int k \<longrightarrow> Retryable_outcome (do_result w i)"
  shows
    "(Success_outcome (do_result w (int k)) \<or> Retryable_outcome (do_result w (int k))
        \<or> Terminal_outcome (do_result w (int k)))
     \<and> \<not> (Success_outcome (do_result w (int k)) \<and> Retryable_outcome (do_result w (int k)))
     \<and> \<not> (Success_outcome (do_result w (int k)) \<and> Terminal_outcome (do_result w (int k)))
     \<and> \<not> (Retryable_outcome (do_result w (int k)) \<and> Terminal_outcome (do_result w (int k)))
     \<and> (int k \<le> MaxRetries config \<longrightarrow>
         (Success_outcome (do_result w (int k)) \<longrightarrow>
            (\<exists>r. do_result w (int k) = DoResp r
               \<and> fst (RetryableHTTPRequestImpl_RetryableHTTPRequest config w) = Inr r)
          \<and> attempts (snd (RetryableHTTPRequestImpl_RetryableHTTPRequest config w)) = Suc k
          \<and> slept (snd (RetryableHTTPRequestImpl_RetryableHTTPRequest config w))
              = replicate k (Second * 2))
       \<and> (Terminal_outcome (do_result w (int k)) \<longrightarrow>
            (\<exists>r. do_result w (int k) = DoResp r
               \<and> fst (RetryableHTTPRequestImpl_RetryableHTTPRequest config w)
                   = Inl (RequestFailed (StatusCode r) (Status r)))
          \<and> attempts (snd (RetryableHTTPRequestImpl_RetryableHTTPRequest config w)) = Suc k
          \<and> slept (snd (RetryableHTTPRequestImpl_RetryableHTTPRequest config w))
              = replicate k (Second * 2))
       \<and> (Retryable_outcome (do_result w (int k)) \<and> int k < MaxRetries config \<longrightarrow>
            Suc (Suc k) \<le> attempts (snd (RetryableHTTPRequestImpl_RetryableHTTPRequest config w))
          \<and> Suc k \<le> length (slept (snd (RetryableHTTPRequestImpl_RetryableHTTPRequest config w)))))
     \<and> (int k \<le> 3 \<longrightarrow>
         (Success_outcome (do_result w (int k)) \<longrightarrow>
            (\<exists>r. do_result w (int k) = DoResp r \<and> fst (RetryableHTTPRequest w) = Inr r)
          \<and> attempts (snd (RetryableHTTPRequest w)) = Suc k
          \<and> slept (snd (RetryableHTTPRequest w)) = map (\<lambda>j. exp_delay (int j)) [0..<k])
       \<and> (Terminal_outcome (do_result w (int k)) \<longrightarrow>
            (\<exists>r. do_result w (int k) = DoResp r
               \<and> fst (RetryableHTTPRequest w) = Inl (RequestFailed (StatusCode r) (Status r)))
          \<and> attempts (snd (RetryableHTTPRequest w)) = Suc k
          \<and> slept (snd (RetryableHTTPRequest w)) = map (\<lambda>j. exp_delay (int j)) [0..<k])
       \<and> (Retryable_outcome (do_result w (int k)) \<and> int k < 3 \<longrightarrow>
            Suc (Suc k) \<le> attempts (snd (RetryableHTTPRequest w))
          \<and> Suc k \<le> length (slept (snd (RetryableHTTPRequest w)))))"
proof -
  show ?thesis
    using outcome_classes_exclusive[of "do_result w (int k)"]
      retry_loop_classified[OF assms(1,2) _ assms(3), of "MaxRetries config" "\<lambda>attempt. Second * 2"]
      retry_loop_classified[OF assms(1,2) _ assms(3), of 3 exp_delay]
    unfolding RetryableHTTPRequestImpl_RetryableHTTPRequest_def RetryableHTTPRequest_def
      map_const_upt
    by blast
qed

lemmas example_defs = resp_def script_def world_of_def main_config_def
  Retryable_outcome_def Success_outcome_def Terminal_outcome_def

theorem transport_classifies_each_attempt_witness:
  "fst (RetryableHTTPRequestImpl_RetryableHTTPRequest main_config
          (world_of [DoErr ''timeout'', resp 429 ''429 Too Many Requests'', resp 200 ''200 OK''] None))
     = Inr \<lparr>StatusCode = 200, Status = ''200 OK''\<rparr>
   \<and> attempts (snd (RetryableHTTPRequestImpl_RetryableHTTPRequest main_config
          (world_of [DoErr ''timeout'', resp 429 ''429 Too Many Requests'', resp 200 ''200 OK''] None)))
     = 3
   \<and> slept (snd (RetryableHTTPRequestImpl_RetryableHTTPRequest main_config
          (world_of [DoErr ''timeout'', resp 429 ''429 Too Many Requests'', resp 200 ''200 OK''] None)))
     = [Second * 2, Second * 2]
   \<and> fst (RetryableHTTPRequest (world_of [resp 404 ''404 Not Found''] None))
     = Inl (RequestFailed 404 ''404 Not Found'')
   \<and> attempts (snd (RetryableHTTPRequest (world_of [resp 404 ''404 Not Found''] None))) = 1
   \<and> slept (snd (RetryableHTTPRequest (world_of [resp 404 ''404 Not Found''] None))) = []"
proof -
  let ?w = "world_of [DoErr ''timeout'', resp 429 ''429 Too Many Requests'', resp 200 ''200 OK''] None"
  let ?v = "world_of [resp 404 ''404 Not Found''] None"
  have w: "\<forall>i. 0 \<le> i \<and> i < int 2 \<longrightarrow> Retryable_outcome (do_result ?w i)"
  proof (intro allI impI)
    fix i :: int assume "0 \<le> i \<and> i < int 2"
    then have "i = 0 \<or> i = 1" by auto
    then show "Retryable_outcome (do_result ?w i)" by (auto simp: example_defs)
  qed
  have v: "\<forall>i. 0 \<le> i \<and> i < int 0 \<longrightarrow> Retryable_outcome (do_result ?v i)" by auto
  have "req_err ?w = None" "cancel_at ?w = None" "req_err ?v = None" "cancel_at ?v = None"
    by (simp_all add: world_of_def)
  from transport_classifies_each_attempt[OF this(1,2) w, of main_config]
       transport_classifies_each_attempt[OF this(3,4) v, of main_config]
  show ?thesis
    by (simp add: example_defs numeral_2_eq_2 numeral_3_eq_3)
qed

text \<open>
  Claim C6 says that the error returned after the last attempt preserves the last cause
  and the number of attempts made. It does not carry the number: a transport that gave up
  after one attempt and one that gave up after three return the same error value.
\<close>

theorem exhausted_error_hides_attempt_count:
  "fst (RetryableHTTPRequestImpl_RetryableHTTPRequest
          \<lparr>MaxRetries = 0, BaseDelay = 1 * Second, MaxDelay = 30 * Second\<rparr> (world_of [] None))
     = fst (RetryableHTTPRequestImpl_RetryableHTTPRequest
          \<lparr>MaxRetries = 2, BaseDelay = 1 * Second, MaxDelay = 30 * Second\<rparr> (world_of [] None))
   \<and> attempts (snd (RetryableHTTPRequestImpl_RetryableHTTPRequest
          \<lparr>MaxRetries = 0, BaseDelay = 1 * Second, MaxDelay = 30 * Second\<rparr> (world_of [] None))) = 1
   \<and> attempts (snd (RetryableHTTPRequestImpl_RetryableHTTPRequest
          \<lparr>MaxRetries = 2, BaseDelay = 1 * Second, MaxDelay = 30 * Second\<rparr> (world_of [] None))) = 3"
  by (simp add: RetryableHTTPRequestImpl_RetryableHTTPRequest_def retry_loop.simps
        world_of_def script_def after_do_def backoff_select_def tstate0_def Let_def)

text \<open>
  Claim C6, as amended. When the request can be built, the token never fires and every
  one of the \<open>MaxRetries + 1\<close> attempts (four for the free function) has a retryable
  outcome, the call makes exactly that many attempts and returns \<open>AllRetriesFailed\<close>
  around the cause of the last attempt. The number of attempts is no part of the error.
\<close>

theorem exhausted_error_wraps_last_cause:
  assumes "req_err w = None" and "cancel_at w = None"
  shows
    "(0 \<le> MaxRetries config
        \<and> (\<forall>i. 0 \<le> i \<and> i \<le> MaxRetries config \<longrightarrow> Retryable_outcome (do_result w i)) \<longrightarrow>
        fst (RetryableHTTPRequestImpl_RetryableHTTPRequest config w)
          = Inl (AllRetriesFailed (Some (cause_of (do_result w (MaxRetries config)))))
      \<and> int (attempts (snd (RetryableHTTPRequestImpl_RetryableHTTPRequest config w)))
          = MaxRetries config + 1)
   \<and> ((\<forall>i. 0 \<le> i \<and> i \<le> 3 \<longrightarrow> Retryable_outcome (do_result w i)) \<longrightarrow>
        fst (RetryableHTTPRequest w) = Inl (AllRetriesFailed (Some (cause_of (do_result w 3))))
      \<and> attempts (snd (RetryableHTTPRequest w)) = 4)"
proof -
  have gen: "fst (retry_loop m d w 0 None tstate0)
               = Inl (AllRetriesFailed (Some (cause_of (do_result w m))))
           \<and> int (attempts (snd (retry_loop m d w 0 None tstate0))) = m + 1"
    if m: "0 \<le> m" and all: "\<forall>i. 0 \<le> i \<and> i \<le> m \<longrightarrow> Retryable_outcome (do_result w i)"
    for m d
  proof -
    have quiet: "\<forall>c. cancel_at w = Some c \<longrightarrow>
        (\<forall>i. 0 \<le> do_took w i \<and> 0 \<le> d i) \<and> span w d 0 (nat m) \<le> c"
      using assms(2) by simp
    have pre: "\<forall>i. 0 \<le> i \<and> i < int (nat m) \<longrightarrow> Retryable_outcome (do_result w i)"
      using all m by auto
    have le: "int (nat m) \<le> m" using m by simp
    obtain l' st' where run:
      "retry_loop m d w 0 None tstate0 = retry_loop m d w (int (nat m)) l' st'"
      "attempts st' = nat m"
      using retry_loop_prefix[OF assms(1) le pre quiet] by blast
    have last: "Retryable_outcome (do_result w m)" using all m by simp
    show ?thesis
      using run m retry_loop_exhausted[OF assms(1) last, of d l' st'] by simp
  qed
  show ?thesis
    using gen[of "MaxRetries config" "\<lambda>attempt. Second * 2"] gen[of 3 exp_delay]
    unfolding RetryableHTTPRequestImpl_RetryableHTTPRequest_def RetryableHTTPRequest_def
    by auto
qed

theorem exhausted_error_wraps_last_cause_witness:
  "fst (RetryableHTTPRequestImpl_RetryableHTTPRequest main_config
          (world_of [DoErr ''timeout'', DoErr ''timeout'', DoErr ''reset'',
                     resp 429 ''429 Too Many Requests''] None))
     = Inl (AllRetriesFailed (Some (RateLimited 429 ''429 Too Many Requests'')))
   \<and> attempts (snd (RetryableHTTPRequestImpl_RetryableHTTPRequest main_config
          (world_of [DoErr ''timeout'', DoErr ''timeout'', DoErr ''reset'',
                     resp 429 ''429 Too Many Requests''] None))) = 4"
proof -
  let ?w = "world_of [DoErr ''timeout'', DoErr ''timeout'', DoErr ''reset'',
                     resp 429 ''429 Too Many Requests''] None"
  have all: "\<forall>i. 0 \<le> i \<and> i \<le> MaxRetries main_config \<longrightarrow> Retryable_outcome (do_result ?w i)"
  proof (intro allI impI)
    fix i :: int assume "0 \<le> i \<and> i \<le> MaxRetries main_config"
    then have "i = 0 \<or> i = 1 \<or> i = 2 \<or> i = 3" by (auto simp: main_config_def)
    then show "Retryable_outcome (do_result ?w i)" by (auto simp: example_defs)
  qed
  have "req_err ?w = None" "cancel_at ?w = None" by (simp_all add: world_of_def)
  from exhausted_error_wraps_last_cause[OF this, of main_config] all
  show ?thesis
    by (simp add: example_defs cause_of_def)
qed

text \<open>
  Claim C8. \<open>backoff_start w d k\<close> is the instant at which the backoff after attempt
  \<open>k\<close> begins when all attempts up to \<open>k\<close> were retried. If the token fires at an
  instant \<open>c\<close> inside that backoff (at or after its start, before its timer), the call
  returns \<^verbatim>\<open>ctx.Err()\<close> with the clock at \<open>c\<close> itself, not at the end of the delay;
  attempt \<open>k\<close> was the last one, and the interrupted delay is not among the completed
  ones. The clock is the model's logical time: the latency with which the Go scheduler
  wakes the goroutine is not part of it.
\<close>

theorem cancellation_interrupts_backoff:
  assumes "req_err w = None" and "\<forall>i. 0 \<le> do_took w i"
    and "\<forall>i. 0 \<le> i \<and> i \<le> int k \<longrightarrow> Retryable_outcome (do_result w i)"
    and "cancel_at w = Some c"
  shows
    "(int k < MaxRetries config
        \<and> backoff_start w (\<lambda>attempt. Second * 2) k \<le> c
        \<and> c < backoff_start w (\<lambda>attempt. Second * 2) k + Second * 2 \<longrightarrow>
      RetryableHTTPRequestImpl_RetryableHTTPRequest config w
        = (Inl CtxErr, \<lparr>clock = c, attempts = Suc k, slept = replicate k (Second * 2)\<rparr>))
   \<and> (int k < 3
        \<and> backoff_start w exp_delay k \<le> c
        \<and> c < backoff_start w exp_delay k + exp_delay (int k) \<longrightarrow>
      RetryableHTTPRequest w
        = (Inl CtxErr, \<lparr>clock = c, attempts = Suc k,
                        slept = map (\<lambda>j. exp_delay (int j)) [0..<k]\<rparr>))"
proof -
  have gen: "retry_loop m d w 0 None tstate0
               = (Inl CtxErr, \<lparr>clock = c, attempts = Suc k,
                               slept = map (\<lambda>j. d (int j)) [0..<k]\<rparr>)"
    if m: "int k < m" and d: "\<forall>i. 0 \<le> d i"
      and lo: "backoff_start w d k \<le> c" and hi: "c < backoff_start w d k + d (int k)"
    for m d
  proof -
    have "span w d 0 k \<le> c" using lo assms(2) by (simp add: backoff_start_def) (smt (verit))
    then have quiet: "\<forall>c'. cancel_at w = Some c' \<longrightarrow>
        (\<forall>i. 0 \<le> do_took w i \<and> 0 \<le> d i) \<and> span w d 0 k \<le> c'"
      using assms(2,4) d by simp
    have pre: "\<forall>i. 0 \<le> i \<and> i < int k \<longrightarrow> Retryable_outcome (do_result w i)"
      using assms(3) by auto
    have le: "int k \<le> m" using m by simp
    obtain l' st' where run:
      "retry_loop m d w 0 None tstate0 = retry_loop m d w (int k) l' st'"
      "clock st' = span w d 0 k" "attempts st' = k" "slept st' = map (\<lambda>j. d (int j)) [0..<k]"
      using retry_loop_prefix[OF assms(1) le pre quiet] by blast
    have last: "Retryable_outcome (do_result w (int k))" using assms(3) by simp
    have "c < clock st' + do_took w (int k) + d (int k)"
      using hi run(2) by (simp add: backoff_start_def)
    from retry_loop_cancelled[of w "int k" m c st' d l', OF assms(1) m last assms(4) this] run lo
    show ?thesis
      by (cases st') (simp add: backoff_start_def max_def)
  qed
  have two: "\<forall>i. 0 \<le> (\<lambda>attempt::int. Second * 2) i" by (simp add: Second_def)
  have ex: "\<forall>i. 0 \<le> exp_delay i" by (simp add: exp_delay_def Second_def)
  show ?thesis
    using gen[OF _ two, of "MaxRetries config"] gen[OF _ ex, of 3]
    unfolding RetryableHTTPRequestImpl_RetryableHTTPRequest_def RetryableHTTPRequest_def
      map_const_upt
    by blast
qed

theorem cancellation_interrupts_backoff_witness:
  "RetryableHTTPRequestImpl_RetryableHTTPRequest main_config
     (world_of [resp 429 ''429 Too Many Requests'', resp 429 ''429 Too Many Requests'',
                resp 200 ''200 OK''] (Some (5 * Second)))
     = (Inl CtxErr, \<lparr>clock = 5 * Second, attempts = 2, slept = [Second * 2]\<rparr>)"
proof -
  let ?w = "world_of [resp 429 ''429 Too Many Requests'', resp 429 ''429 Too Many Requests'',
                resp 200 ''200 OK''] (Some (5 * Second))"
  have all: "\<forall>i. 0 \<le> i \<and> i \<le> int 1 \<longrightarrow> Retryable_outcome (do_result ?w i)"
  proof (intro allI impI)
    fix i :: int assume "0 \<le> i \<and> i \<le> int 1"
    then have "i = 0 \<or> i = 1" by auto
    then show "Retryable_outcome (do_result ?w i)" by (auto simp: example_defs)
  qed
  have "req_err ?w = None" "\<forall>i. 0 \<le> do_took ?w i" "cancel_at ?w = Some (5 * Second)"
    by (simp_all add: world_of_def Second_def)
  from cancellation_interrupts_backoff[OF this(1,2) all this(3), of main_config]
  show ?thesis
    by (simp add: backoff_start_def main_config_def world_of_def Second_def)
qed

text \<open>
  Claim C5 at a concrete input. The configuration caps the delay at one second
  (\<open>MaxDelay\<close>) with a base delay of one second; the responses are 429, 429, 200. Both
  delays are two seconds: the configured \<open>BaseDelay\<close> and \<open>MaxDelay\<close> are not read, and
  the delay exceeds the configured maximum.
\<close>

theorem backoff_delay_ignores_configuration:
  "slept (snd (RetryableHTTPRequestImpl_RetryableHTTPRequest
          \<lparr>MaxRetries = 3, BaseDelay = 1 * Second, MaxDelay = 1 * Second\<rparr>
          (world_of [resp 429 ''429 Too Many Requests'', resp 429 ''429 Too Many Requests'',
                     resp 200 ''200 OK''] None)))
     = [2 * Second, 2 * Second]
   \<and> MaxDelay \<lparr>MaxRetries = 3, BaseDelay = 1 * Second, MaxDelay = 1 * Second\<rparr> < 2 * Second"
  by (simp add: RetryableHTTPRequestImpl_RetryableHTTPRequest_def retry_loop.simps
        world_of_def script_def resp_def after_do_def backoff_select_def tstate0_def Let_def
        Second_def)

section \<open>Properties of the listing scanner\<close>

lemma send_jobs_quiet:
  assumes "\<forall>n. \<not> done_at e n"
  shows "fst (send_jobs e jobs st) = None
       \<and> requested (snd (send_jobs e jobs st)) = requested st
       \<and> http_requests (snd (send_jobs e jobs st)) = http_requests st
       \<and> emitted (snd (send_jobs e jobs st)) = emitted st @ jobs"
  using assms by (induction jobs arbitrary: st) auto

lemma ScrapeJobsWithContext_requested:
  "requested (snd (ScrapeJobsWithContext config e page params st))
     = requested st @ [buildSearchURL params page]"
  by (simp add: ScrapeJobsWithContext_def Let_def split: sum.splits prod.splits)

lemma ScrapeJobsWithContext_http_requests:
  "http_requests (snd (ScrapeJobsWithContext config e page params st))
     = http_requests st
       + attempts (snd (RetryableHTTPRequestImpl_RetryableHTTPRequest (retry_config config)
                          (site e (buildSearchURL params page))))"
  by (simp add: ScrapeJobsWithContext_def Let_def split: sum.splits prod.splits)

lemma ScrapeJobsWithContext_ok:
  assumes "\<not> isl (fst (RetryableHTTPRequestImpl_RetryableHTTPRequest (retry_config config)
                     (site e (buildSearchURL params page))))"
    and "\<not> isl (page_at e (buildSearchURL params page))"
  shows "snd (fst (ScrapeJobsWithContext config e page params st)) = None"
  using assms by (auto simp: ScrapeJobsWithContext_def Let_def split: sum.splits prod.splits)

lemma scan_pages_quiet:
  assumes "\<forall>n. \<not> done_at e n"
  shows "(\<forall>i \<in> set pages.
           \<not> isl (fst (RetryableHTTPRequestImpl_RetryableHTTPRequest (retry_config config)
                     (site e (buildSearchURL params i))))
         \<and> \<not> isl (page_at e (buildSearchURL params i))) \<Longrightarrow>
       fst (scan_pages config e params pages st) = None
     \<and> requested (snd (scan_pages config e params pages st))
         = requested st @ map (buildSearchURL params) pages
     \<and> http_requests (snd (scan_pages config e params pages st))
         = http_requests st
           + sum_list (map (\<lambda>i. attempts (snd (RetryableHTTPRequestImpl_RetryableHTTPRequest
                  (retry_config config) (site e (buildSearchURL params i))))) pages)"
proof (induction pages arbitrary: st)
  case Nil
  then show ?case by simp
next
  case (Cons i pages)
  let ?st0 = "st\<lparr>polls := Suc (polls st)\<rparr>"
  obtain jobs err st1 where s: "ScrapeJobsWithContext config e i params ?st0 = ((jobs, err), st1)"
    by (metis surj_pair)
  have err: "err = None"
    using ScrapeJobsWithContext_ok[of config e params i ?st0] Cons.prems s by simp
  have r1: "requested st1 = requested st @ [buildSearchURL params i]"
    using ScrapeJobsWithContext_requested[of config e i params ?st0] s by simp
  have h1: "http_requests st1 = http_requests st
       + attempts (snd (RetryableHTTPRequestImpl_RetryableHTTPRequest (retry_config config)
                          (site e (buildSearchURL params i))))"
    using ScrapeJobsWithContext_http_requests[of config e i params ?st0] s by simp
  obtain r st2 where j: "send_jobs e jobs st1 = (r, st2)" by (metis surj_pair)
  have r: "r = None" and r2: "requested st2 = requested st1"
    and h2: "http_requests st2 = http_requests st1"
    using send_jobs_quiet[OF assms, of jobs st1] j by simp_all
  have "fst (scan_pages config e params pages st2) = None
     \<and> requested (snd (scan_pages config e params pages st2))
         = requested st2 @ map (buildSearchURL params) pages
     \<and> http_requests (snd (scan_pages config e params pages st2))
         = http_requests st2
           + sum_list (map (\<lambda>i. attempts (snd (RetryableHTTPRequestImpl_RetryableHTTPRequest
                  (retry_config config) (site e (buildSearchURL params i))))) pages)"
    using Cons.prems by (intro Cons.IH) simp
  then show ?case
    using assms s err j r r1 r2 h1 h2 by simp
qed

lemma first_attempt_succeeds:
  assumes "req_err w = None" "0 \<le> MaxRetries config" "Success_outcome (do_result w 0)"
  shows "\<not> isl (fst (RetryableHTTPRequestImpl_RetryableHTTPRequest config w))
       \<and> attempts (snd (RetryableHTTPRequestImpl_RetryableHTTPRequest config w)) = 1"
proof -
  obtain r where r: "do_result w 0 = DoResp r" "200 \<le> StatusCode r \<and> StatusCode r < 300"
    using assms(3) by (auto simp: Success_outcome_def split: do_outcome.splits)
  then have "after_do (do_result w 0) = Inl (Inr r)" by (simp add: after_do_def)
  from retry_loop_return[OF assms(1,2) this]
  show ?thesis
    by (simp add: RetryableHTTPRequestImpl_RetryableHTTPRequest_def tstate0_def)
qed

lemma digit_char_is_digit: "k < 10 \<Longrightarrow> is_digit (''0123456789'' ! k)"
proof -
  assume "k < 10"
  then have "k = 0 \<or> k = 1 \<or> k = 2 \<or> k = 3 \<or> k = 4 \<or> k = 5 \<or> k = 6 \<or> k = 7 \<or> k = 8 \<or> k = 9"
    by arith
  then show ?thesis by (auto simp: is_digit_def)
qed

lemma nat_dec_digits: "\<forall>c \<in> set (nat_dec n). is_digit c"
proof (induction n rule: nat_dec.induct)
  case (1 n)
  show ?case
  proof (cases "n < 10")
    case True
    then show ?thesis by (subst nat_dec.simps) (simp add: digit_char_is_digit)
  next
    case False
    then show ?thesis using 1 by (subst nat_dec.simps) (simp add: digit_char_is_digit)
  qed
qed

lemma escape_digit: "is_digit c \<Longrightarrow> escape_byte c = [c]"
  by (auto simp: escape_byte_def shouldEscape_def is_alnum_def is_digit_def Let_def)

lemma QueryEscape_digits: "\<forall>c \<in> set s. is_digit c \<Longrightarrow> QueryEscape s = s"
  by (induction s) (simp_all add: QueryEscape_def escape_digit)

lemma QueryEscape_Itoa: "0 \<le> i \<Longrightarrow> QueryEscape (Itoa i) = Itoa i"
  by (simp add: Itoa_def QueryEscape_digits nat_dec_digits)

lemma int64_id: "0 \<le> x \<Longrightarrow> x < 2 ^ 63 \<Longrightarrow> int64 x = x"
  by (simp add: int64_def)

lemma QueryEscape_literals:
  "QueryEscape ''keywords'' = ''keywords''" "QueryEscape ''location'' = ''location''"
  "QueryEscape ''f_WT'' = ''f_WT''" "QueryEscape ''start'' = ''start''"
  by (simp_all add: QueryEscape_def escape_byte_def shouldEscape_def is_alnum_def)

lemma buildSearchURL_start:
  assumes "0 \<le> i" "25 * i < 2 ^ 63"
  shows "buildSearchURL params i =
     ''https://www.linkedin.com/jobs-guest/jobs/api/seeMoreJobPostings/search?''
     @ (if FWT params \<noteq> [] then ''f_WT='' @ QueryEscape (FWT params) @ ''&'' else [])
     @ ''keywords='' @ QueryEscape (QueryEscape (Keywords params))
     @ ''&location='' @ QueryEscape (QueryEscape (QueryLocation params))
     @ ''&start='' @ Itoa (25 * i)"
proof -
  have "int64 (25 * i) = 25 * i" using assms by (intro int64_id) auto
  moreover have "QueryEscape (Itoa (25 * i)) = Itoa (25 * i)"
    using assms by (intro QueryEscape_Itoa) auto
  ultimately show ?thesis
    by (simp add: buildSearchURL_def Values_Set_def Values_Encode_def sort_by_key_def
          QueryEscape_literals Let_def)
qed

lemma neg_retries_fail:
  "\<not> 0 \<le> MaxRetries config \<Longrightarrow>
   isl (fst (RetryableHTTPRequestImpl_RetryableHTTPRequest config w))"
  unfolding RetryableHTTPRequestImpl_RetryableHTTPRequest_def
  by (subst retry_loop.simps) simp

lemma one_try:
  assumes "\<not> isl (fst (RetryableHTTPRequestImpl_RetryableHTTPRequest config w))"
    and "req_err w = None" and "Success_outcome (do_result w 0)"
  shows "attempts (snd (RetryableHTTPRequestImpl_RetryableHTTPRequest config w)) = 1"
proof -
  have "0 \<le> MaxRetries config" using assms(1) neg_retries_fail by blast
  then show ?thesis using first_attempt_succeeds[OF assms(2) _ assms(3)] by blast
qed

text \<open>
  Claim C2. When the token never fires and, for every page index below \<open>numPages\<close>, the
  transport returns a response and the document can be read, the scanner ends without
  error, and the URLs it handed to the transport are, in this order, those of the pages
  \<open>0, 1, \<dots>, numPages - 1\<close>: one call of the transport per page, \<open>numPages\<close> in all
  (none for a \<open>numPages\<close> that is not positive). When moreover no attempt fails (each
  request can be built and is answered 2xx at once), the HTTP requests made are
  \<open>numPages\<close> too. The URL of page \<open>i\<close> ends in \<^verbatim>\<open>&start=\<close> and the decimal numeral of
  \<open>25 * i\<close>, after the work-type filter (when the query has one), the keywords and the
  location. The product is one of Go \<^verbatim>\<open>int\<close>s; the last part is stated for the page
  indices whose product is below \<open>2 ^ 63\<close>, where it is the exact product.
\<close>

theorem scanner_requests_pages_in_order:
  assumes "\<forall>n. \<not> done_at e n"
    and "\<forall>i. 0 \<le> i \<and> i < numPages \<longrightarrow>
           \<not> isl (fst (RetryableHTTPRequestImpl_RetryableHTTPRequest (retry_config config)
                     (site e (buildSearchURL params i))))
         \<and> \<not> isl (page_at e (buildSearchURL params i))"
  shows "fst (ScrapeLinkedInJobsStreaming config e numPages params) = None
     \<and> requested (snd (ScrapeLinkedInJobsStreaming config e numPages params))
         = map (\<lambda>i. buildSearchURL params (int i)) [0..<nat numPages]
     \<and> ((\<forall>i. 0 \<le> i \<and> i < numPages \<longrightarrow>
            req_err (site e (buildSearchURL params i)) = None
          \<and> Success_outcome (do_result (site e (buildSearchURL params i)) 0)) \<longrightarrow>
         http_requests (snd (ScrapeLinkedInJobsStreaming config e numPages params))
           = nat numPages)
     \<and> (\<forall>i. 0 \<le> i \<and> 25 * i < 2 ^ 63 \<longrightarrow>
          buildSearchURL params i =
            ''https://www.linkedin.com/jobs-guest/jobs/api/seeMoreJobPostings/search?''
            @ (if FWT params \<noteq> [] then ''f_WT='' @ QueryEscape (FWT params) @ ''&'' else [])
            @ ''keywords='' @ QueryEscape (QueryEscape (Keywords params))
            @ ''&location='' @ QueryEscape (QueryEscape (QueryLocation params))
            @ ''&start='' @ Itoa (25 * i))"
proof -
  let ?pages = "map int [0..<nat numPages]"
  let ?tries = "\<lambda>i. attempts (snd (RetryableHTTPRequestImpl_RetryableHTTPRequest
                  (retry_config config) (site e (buildSearchURL params i))))"
  have pages: "\<forall>i \<in> set ?pages.
           \<not> isl (fst (RetryableHTTPRequestImpl_RetryableHTTPRequest (retry_config config)
                     (site e (buildSearchURL params i))))
         \<and> \<not> isl (page_at e (buildSearchURL params i))"
    using assms(2) by auto
  have run: "fst (scan_pages config e params ?pages sstate0) = None
     \<and> requested (snd (scan_pages config e params ?pages sstate0))
         = requested sstate0 @ map (buildSearchURL params) ?pages
     \<and> http_requests (snd (scan_pages config e params ?pages sstate0))
         = http_requests sstate0 + sum_list (map ?tries ?pages)"
    using scan_pages_quiet[OF assms(1) pages] .
  have A: "fst (ScrapeLinkedInJobsStreaming config e numPages params) = None"
    using run by (simp add: ScrapeLinkedInJobsStreaming_def)
  have B: "requested (snd (ScrapeLinkedInJobsStreaming config e numPages params))
         = map (\<lambda>i. buildSearchURL params (int i)) [0..<nat numPages]"
    using run by (simp add: ScrapeLinkedInJobsStreaming_def sstate0_def comp_def)
  have H: "http_requests (snd (ScrapeLinkedInJobsStreaming config e numPages params))
         = sum_list (map ?tries ?pages)"
    using run by (simp add: ScrapeLinkedInJobsStreaming_def sstate0_def)
  have C: "(\<forall>i. 0 \<le> i \<and> i < numPages \<longrightarrow>
            req_err (site e (buildSearchURL params i)) = None
          \<and> Success_outcome (do_result (site e (buildSearchURL params i)) 0)) \<longrightarrow>
         http_requests (snd (ScrapeLinkedInJobsStreaming config e numPages params))
           = nat numPages"
  proof
    assume first: "\<forall>i. 0 \<le> i \<and> i < numPages \<longrightarrow>
            req_err (site e (buildSearchURL params i)) = None
          \<and> Success_outcome (do_result (site e (buildSearchURL params i)) 0)"
    have "\<forall>i \<in> set ?pages. ?tries i = 1"
    proof
      fix i assume "i \<in> set ?pages"
      then have range: "0 \<le> i \<and> i < numPages" by auto
      show "?tries i = 1"
      proof (rule one_try)
        show "\<not> isl (fst (RetryableHTTPRequestImpl_RetryableHTTPRequest (retry_config config)
                     (site e (buildSearchURL params i))))"
          using assms(2) range by blast
        show "req_err (site e (buildSearchURL params i)) = None"
          using first range by blast
        show "Success_outcome (do_result (site e (buildSearchURL params i)) 0)"
          using first range by blast
      qed
    qed
    then have "map ?tries ?pages = map (\<lambda>i. 1) ?pages"
      by (intro map_cong refl) blast
    then have "sum_list (map ?tries ?pages) = nat numPages"
      by (simp only: sum_list_triv length_map length_upt) simp
    then show "http_requests (snd (ScrapeLinkedInJobsStreaming config e numPages params))
           = nat numPages"
      using H by (simp only:)
  qed
  have D: "\<forall>i. 0 \<le> i \<and> 25 * i < 2 ^ 63 \<longrightarrow>
          buildSearchURL params i =
            ''https://www.linkedin.com/jobs-guest/jobs/api/seeMoreJobPostings/search?''
            @ (if FWT params \<noteq> [] then ''f_WT='' @ QueryEscape (FWT params) @ ''&'' else [])
            @ ''keywords='' @ QueryEscape (QueryEscape (Keywords params))
            @ ''&location='' @ QueryEscape (QueryEscape (QueryLocation params))
            @ ''&start='' @ Itoa (25 * i)"
    using buildSearchURL_start by blast
  from A B C D show ?thesis by blast
qed

lemma site_with_ok:
  "\<not> isl (fst (RetryableHTTPRequestImpl_RetryableHTTPRequest (retry_config main_Config)
                     (site (site_with cards) url)))
   \<and> \<not> isl (page_at (site_with cards) url)"
  by (simp add: site_with_def RetryableHTTPRequestImpl_RetryableHTTPRequest_def
        retry_loop.simps world_of_def script_def resp_def after_do_def tstate0_def Let_def
        retry_config_def main_Config_def)

lemma Itoa_small:
  "Itoa 0 = ''0''" "Itoa 25 = ''25''" "Itoa 50 = ''50''"
  by (simp_all add: Itoa_def nat_dec.simps)

theorem scanner_requests_pages_in_order_witness:
  "fst (ScrapeLinkedInJobsStreaming main_Config (site_with [card_12345]) 3 main_query) = None
   \<and> http_requests (snd (ScrapeLinkedInJobsStreaming main_Config (site_with [card_12345]) 3
                           main_query)) = 3
   \<and> requested (snd (ScrapeLinkedInJobsStreaming main_Config (site_with [card_12345]) 3 main_query))
      = [''https://www.linkedin.com/jobs-guest/jobs/api/seeMoreJobPostings/search?f_WT=2%2C3&keywords=Frontend%2BDeveloper&location=Japan&start=0'',
         ''https://www.linkedin.com/jobs-guest/jobs/api/seeMoreJobPostings/search?f_WT=2%2C3&keywords=Frontend%2BDeveloper&location=Japan&start=25'',
         ''https://www.linkedin.com/jobs-guest/jobs/api/seeMoreJobPostings/search?f_WT=2%2C3&keywords=Frontend%2BDeveloper&location=Japan&start=50'']"
proof -
  have quiet: "\<forall>n. \<not> done_at (site_with [card_12345]) n" by (simp add: site_with_def)
  have ok: "\<forall>i. 0 \<le> i \<and> i < 3 \<longrightarrow>
           \<not> isl (fst (RetryableHTTPRequestImpl_RetryableHTTPRequest (retry_config main_Config)
                     (site (site_with [card_12345]) (buildSearchURL main_query i))))
         \<and> \<not> isl (page_at (site_with [card_12345]) (buildSearchURL main_query i))"
    using site_with_ok by blast
  have esc: "QueryEscape (FWT main_query) = ''2%2C3''"
    "QueryEscape (QueryEscape (Keywords main_query)) = ''Frontend%2BDeveloper''"
    "QueryEscape (QueryEscape (QueryLocation main_query)) = ''Japan''"
    by (simp_all add: main_query_def QueryEscape_def escape_byte_def shouldEscape_def is_alnum_def)
  have fwt: "FWT main_query \<noteq> []" by (simp add: main_query_def)
  have three: "[0..<3] = [0, 1, 2::nat]" by (simp add: upt_rec)
  have first: "\<forall>i. 0 \<le> i \<and> i < 3 \<longrightarrow>
            req_err (site (site_with [card_12345]) (buildSearchURL main_query i)) = None
          \<and> Success_outcome
                (do_result (site (site_with [card_12345]) (buildSearchURL main_query i)) 0)"
    by (simp add: site_with_def example_defs)
  from scanner_requests_pages_in_order[OF quiet ok] first
  have run: "fst (ScrapeLinkedInJobsStreaming main_Config (site_with [card_12345]) 3 main_query) = None"
    "requested (snd (ScrapeLinkedInJobsStreaming main_Config (site_with [card_12345]) 3 main_query))
         = map (\<lambda>i. buildSearchURL main_query (int i)) [0..<nat 3]"
    "http_requests (snd (ScrapeLinkedInJobsStreaming main_Config (site_with [card_12345]) 3
                           main_query)) = nat 3"
    and url: "\<And>i. 0 \<le> i \<Longrightarrow> 25 * i < 2 ^ 63 \<Longrightarrow> buildSearchURL main_query i =
            ''https://www.linkedin.com/jobs-guest/jobs/api/seeMoreJobPostings/search?''
            @ (if FWT main_query \<noteq> [] then ''f_WT='' @ QueryEscape (FWT main_query) @ ''&'' else [])
            @ ''keywords='' @ QueryEscape (QueryEscape (Keywords main_query))
            @ ''&location='' @ QueryEscape (QueryEscape (QueryLocation main_query))
            @ ''&start='' @ Itoa (25 * i)"
    by blast+
  show ?thesis
    using run url[of 0] url[of 1] url[of 2]
    by (simp add: three esc fwt Itoa_small)
qed

lemma foldl_dec_ge: "n \<le> foldl (\<lambda>n c. n * 10 + digit_val c) n ds"
proof (induction ds arbitrary: n)
  case Nil
  then show ?case by simp
next
  case (Cons c ds)
  have "n \<le> n * 10 + digit_val c" by simp
  also have "\<dots> \<le> foldl (\<lambda>n c. n * 10 + digit_val c) (n * 10 + digit_val c) ds"
    by (rule Cons.IH)
  finally show ?case by simp
qed

lemma ParseUint_digits_value:
  "\<forall>c \<in> set ds. is_digit c \<Longrightarrow>
   foldl (\<lambda>n c. n * 10 + digit_val c) n ds \<le> maxUint64 \<Longrightarrow>
   ParseUint_digits ds n = (foldl (\<lambda>n c. n * 10 + digit_val c) n ds, None)"
proof (induction ds arbitrary: n)
  case Nil
  then show ?case by simp
next
  case (Cons c ds)
  have le: "n * 10 + digit_val c \<le> maxUint64"
    using foldl_dec_ge[of "n * 10 + digit_val c" ds] Cons.prems(2) by simp
  then have "n \<le> maxUint64 div 10" by arith
  then have cut: "\<not> maxUint64 div 10 + 1 \<le> n" by simp
  show ?case
    using Cons.prems le cut Cons.IH[of "n * 10 + digit_val c"] by simp
qed

lemma ParseInt_digits:
  assumes "\<forall>c \<in> set ds. is_digit c" "ds \<noteq> []" "dec_value ds < 2 ^ 63"
  shows "ParseInt ds = (int (dec_value ds), None)"
proof -
  have "is_digit (hd ds)" using assms(1,2) by (cases ds) auto
  then have nosign: "hd ds \<noteq> CHR ''-''" "hd ds \<noteq> CHR ''+''"
    by (auto simp: is_digit_def)
  have "dec_value ds \<le> maxUint64" using assms(3) by (simp add: maxUint64_def)
  then have "ParseUint ds = (dec_value ds, None)"
    using ParseUint_digits_value[OF assms(1), of 0] assms(2)
    by (simp add: ParseUint_def dec_value_def)
  then show ?thesis
    using assms(2,3) nosign by (simp add: ParseInt_def Let_def)
qed

lemma job_id_from_trailing_digits:
  assumes "parse (TrimSpace (link_href s)) = Inr p"
    and "run = rev (takeWhile is_digit (rev (path_Base p)))"
    and "run \<noteq> []" and "dec_value run < 2 ^ 63"
  shows "extractJobIDFromURL parse (TrimSpace (link_href s)) = Inr run
       \<and> ID (job_of_card parse s) = int (dec_value run)"
proof -
  have digits: "\<forall>c \<in> set run. is_digit c"
    using assms(2) by (auto dest: set_takeWhileD)
  have ex: "extractJobIDFromURL parse (TrimSpace (link_href s)) = Inr run"
    using assms(1,2,3) by (simp add: extractJobIDFromURL_def FindStringSubmatch_digits_def Let_def)
  then show ?thesis
    using ParseInt_digits[OF digits assms(3,4)] by (simp add: job_of_card_def Let_def)
qed

lemmas card_eval = ParseInt_def ParseUint_def maxUint64_def is_digit_def digit_val_def Let_def
  job_of_card_def extractJobIDFromURL_def path_Base_def FindStringSubmatch_digits_def
  TrimSpace_def trim_leading.simps leading_rune_def space_runes_def net_url_Parse_def parse_Path_def cut_at_def
  is_alpha_def card_12345_def card_no_digits_def

lemma job_of_card_12345:
  "job_of_card net_url_Parse card_12345 =
     \<lparr>ID = 12345, Title = ''Frontend Developer'', Company = ''Acme'',
      CompanyLink = ''https://jp.linkedin.com/company/acme'', Location = ''Tokyo'',
      JobLink = ''https://jp.linkedin.com/jobs/view/frontend-developer-12345?position=1''\<rparr>"
  by (simp add: card_eval)

lemma job_of_card_no_digits:
  "job_of_card net_url_Parse card_no_digits =
     \<lparr>ID = 0, Title = ''Frontend Developer'', Company = ''Acme'',
      CompanyLink = ''https://jp.linkedin.com/company/acme'', Location = ''Tokyo'',
      JobLink = ''https://jp.linkedin.com/jobs/view/frontend-developer''\<rparr>"
  by (simp add: card_eval)

lemma extract_no_digits:
  "extractJobIDFromURL net_url_Parse ''https://jp.linkedin.com/jobs/view/frontend-developer''
     = Inl (JobIDNotFound ''https://jp.linkedin.com/jobs/view/frontend-developer'')"
  by (simp add: card_eval)

lemma scan_one_page:
  "emitted (snd (ScrapeLinkedInJobsStreaming main_Config (site_with cards) 1 main_query))
     = fold (each_card net_url_Parse) cards []"
proof -
  let ?e = "site_with cards"
  let ?st0 = "sstate0\<lparr>polls := Suc (polls sstate0)\<rparr>"
  have quiet: "\<forall>n. \<not> done_at ?e n" by (simp add: site_with_def)
  have ok: "\<not> isl (fst (RetryableHTTPRequestImpl_RetryableHTTPRequest (retry_config main_Config)
                     (site ?e (buildSearchURL main_query 0))))"
    using site_with_ok[of cards] by simp
  have page: "page_at ?e (buildSearchURL main_query 0) = Inr cards"
    and parse: "url_Parse ?e = net_url_Parse"
    by (simp_all add: site_with_def)
  obtain jobs err st1 where scrape:
    "ScrapeJobsWithContext main_Config ?e 0 main_query ?st0 = ((jobs, err), st1)"
    by (metis surj_pair)
  have jobs: "jobs = fold (each_card net_url_Parse) cards []" and err: "err = None"
    and em1: "emitted st1 = []"
    using scrape ok page parse
    by (auto simp: ScrapeJobsWithContext_def Let_def sstate0_def split: sum.splits prod.splits)
  obtain r st2 where send: "send_jobs ?e jobs st1 = (r, st2)"
    by (metis surj_pair)
  have r: "r = None" and em: "emitted st2 = jobs"
    using send_jobs_quiet[OF quiet, of jobs st1] send em1 by simp_all
  have "ScrapeLinkedInJobsStreaming main_Config ?e 1 main_query = (None, st2)"
    using quiet send r err by (simp add: ScrapeLinkedInJobsStreaming_def scrape)
  then show ?thesis using em jobs by simp
qed

text \<open>
  Claim C3 at a concrete input: a listing page with two cards that have every required
  field. The link of the first ends in \<^verbatim>\<open>frontend-developer-12345\<close>, the link of the
  second in \<^verbatim>\<open>frontend-developer\<close>, with no digit. For the second link
  \<^verbatim>\<open>extractJobIDFromURL\<close> fails, and the scanner still sends the record on \<^verbatim>\<open>jobChan\<close>,
  with the identifier 0. (\<open>job_id_from_trailing_digits\<close> above is the first half of the
  claim: a link whose last path segment ends in a run of digits that fits an \<^verbatim>\<open>int64\<close>
  gets that run as its identifier.)
\<close>

theorem record_without_job_id_is_emitted:
  "extractJobIDFromURL net_url_Parse (TrimSpace (link_href card_no_digits))
     = Inl (JobIDNotFound ''https://jp.linkedin.com/jobs/view/frontend-developer'')
   \<and> emitted (snd (ScrapeLinkedInJobsStreaming main_Config
                     (site_with [card_12345, card_no_digits]) 1 main_query))
     = [\<lparr>ID = 12345, Title = ''Frontend Developer'', Company = ''Acme'',
         CompanyLink = ''https://jp.linkedin.com/company/acme'', Location = ''Tokyo'',
         JobLink = ''https://jp.linkedin.com/jobs/view/frontend-developer-12345?position=1''\<rparr>,
        \<lparr>ID = 0, Title = ''Frontend Developer'', Company = ''Acme'',
         CompanyLink = ''https://jp.linkedin.com/company/acme'', Location = ''Tokyo'',
         JobLink = ''https://jp.linkedin.com/jobs/view/frontend-developer''\<rparr>]"
proof -
  have "TrimSpace (link_href card_no_digits) = ''https://jp.linkedin.com/jobs/view/frontend-developer''"
    by (simp add: card_no_digits_def TrimSpace_def trim_leading.simps leading_rune_def space_runes_def)
  then show ?thesis
    by (simp add: extract_no_digits scan_one_page each_card_def job_of_card_12345
          job_of_card_no_digits)
qed

section \<open>Properties of the detail workers and of their pool\<close>

lemma live_append: "live (ws @ [w]) = live ws + (if w = Exited then 0 else 1)"
  by (simp add: live_def)

lemma live_update_same:
  "i < length ws \<Longrightarrow> ws ! i \<noteq> Exited \<Longrightarrow> y \<noteq> Exited \<Longrightarrow> live (ws[i := y]) = live ws"
proof (induction ws arbitrary: i)
  case Nil
  then show ?case by simp
next
  case (Cons w ws)
  then show ?case by (cases i) (auto simp: live_def)
qed

lemma live_update_exit:
  "i < length ws \<Longrightarrow> ws ! i \<noteq> Exited \<Longrightarrow> Suc (live (ws[i := Exited])) = live ws"
proof (induction ws arbitrary: i)
  case Nil
  then show ?case by simp
next
  case (Cons w ws)
  then show ?case by (cases i) (auto simp: live_def)
qed

lemma live_0: "live ws = 0 \<longleftrightarrow> (\<forall>w \<in> set ws. w = Exited)"
  by (induction ws) (auto simp: live_def)

lemma live_pos: "i < length ws \<Longrightarrow> ws ! i \<noteq> Exited \<Longrightarrow> 0 < live ws"
  using live_update_exit[of i ws] by arith

lemma pool_inv_pool0: "pool_inv pool0"
  by (simp add: pool_inv_def pool0_def numWorkers_def live_def)

lemma main_step_inv:
  assumes "pool_inv s" "main_step s = Some s'"
  shows "pool_inv s'"
proof (cases "main s")
  case (AtAdd k)
  then show ?thesis using assms by (auto simp: pool_inv_def main_step_def)
next
  case (AtGo k)
  then show ?thesis using assms
    by (auto simp: pool_inv_def main_step_def live_append numWorkers_def split: if_splits)
next
  case AtCloser
  then show ?thesis using assms by (auto simp: pool_inv_def main_step_def)
next
  case Returned
  then show ?thesis using assms by (auto simp: pool_inv_def main_step_def)
qed

lemma closer_step_inv:
  assumes "pool_inv s" "closer_step s = Some s'"
  shows "pool_inv s'"
proof (cases "closer s")
  case NotStarted
  then show ?thesis using assms by (simp add: closer_step_def)
next
  case Waiting
  then have "wg s = 0" "s' = s\<lparr>closer := Closing\<rparr>"
    using assms(2) by (auto simp: closer_step_def split: if_splits)
  moreover have "main s = Returned" using assms(1) Waiting by (auto simp: pool_inv_def)
  ultimately show ?thesis using assms(1) Waiting by (simp add: pool_inv_def)
next
  case Closing
  then have "s' = s\<lparr>jobDescriptionChan_closed := True, closer := Finished\<rparr>"
    using assms(2) by (auto simp: closer_step_def)
  then show ?thesis using assms(1) Closing by (simp add: pool_inv_def)
next
  case Finished
  then show ?thesis using assms by (simp add: closer_step_def)
qed

lemma consumer_step_inv:
  assumes "pool_inv s" "consumer_step s = Some s'"
  shows "pool_inv s'"
proof -
  have "main s' = main s \<and> workers s' = workers s \<and> wg s' = wg s \<and> closer s' = closer s
      \<and> jobDescriptionChan_closed s' = jobDescriptionChan_closed s \<and> panicked s' = panicked s"
    using assms(2) by (auto simp: consumer_step_def split: list.splits if_splits)
  then show ?thesis using assms(1) by (simp add: pool_inv_def)
qed

lemma pool_inv_worker_moves:
  assumes "pool_inv s" "0 < live (workers s)" "live ws' = live (workers s)"
    "length ws' = length (workers s)"
  shows "pool_inv (s\<lparr>workers := ws'\<rparr>)" "pool_inv (s\<lparr>jobChan := c, workers := ws'\<rparr>)"
    "pool_inv (s\<lparr>jobDescriptionChan := d, workers := ws'\<rparr>)"
  using assms by (auto simp: pool_inv_def)

lemma pool_inv_worker_exits:
  assumes "pool_inv s" "0 < live (workers s)" "Suc (live ws') = live (workers s)"
    "length ws' = length (workers s)"
  shows "pool_inv (s\<lparr>workers := ws', wg := wg s - 1\<rparr>)"
  using assms by (auto simp: pool_inv_def)

lemma worker_step_inv:
  assumes inv: "pool_inv s" and st: "worker_step config e i s = Some s'"
  shows "pool_inv s'"
proof -
  have i: "i < length (workers s)" using st by (auto simp: worker_step_def split: if_splits)
  have ne: "workers s ! i \<noteq> Exited" using st i by (auto simp: worker_step_def)
  have pos: "0 < live (workers s)" using live_pos[OF i ne] .
  then have open_: "\<not> jobDescriptionChan_closed s"
    using inv by (auto simp: pool_inv_def)
  have same: "\<And>y. y \<noteq> Exited \<Longrightarrow> live ((workers s)[i := y]) = live (workers s)"
    using live_update_same[OF i ne] .
  have ex: "Suc (live ((workers s)[i := Exited])) = live (workers s)"
    using live_update_exit[OF i ne] .
  note moves = pool_inv_worker_moves[OF inv pos] pool_inv_worker_exits[OF inv pos ex]
  show ?thesis
  proof (cases "workers s ! i")
    case Ranging
    then show ?thesis
      using st i same moves
      by (auto simp: worker_step_def split: list.splits if_splits)
  next
    case (Holding job)
    then show ?thesis
      using st i same moves
      by (auto simp: worker_step_def split: sum.splits prod.splits if_splits)
  next
    case (Sending r)
    then show ?thesis
      using st i open_ same moves
      by (auto simp: worker_step_def split: if_splits)
  next
    case Exited
    then show ?thesis using ne by simp
  qed
qed

lemma fire_inv:
  assumes "pool_inv s" "fire config e a s = Some s'"
  shows "pool_inv s'"
proof (cases a)
  case MainStep
  then show ?thesis using assms main_step_inv by (auto simp: fire_def split: if_splits)
next
  case (WorkerStep i)
  then show ?thesis using assms worker_step_inv by (auto simp: fire_def split: if_splits)
next
  case CloserStep
  then show ?thesis using assms closer_step_inv by (auto simp: fire_def split: if_splits)
next
  case ConsumerStep
  then show ?thesis using assms consumer_step_inv by (auto simp: fire_def split: if_splits)
next
  case (Produce job)
  then show ?thesis using assms
    by (auto simp: fire_def pool_inv_def split: if_splits)
next
  case CloseInput
  then show ?thesis using assms
    by (auto simp: fire_def pool_inv_def split: if_splits)
next
  case Cancel
  then show ?thesis using assms
    by (auto simp: fire_def pool_inv_def split: if_splits)
qed

lemma run_schedule_inv:
  "pool_inv s \<Longrightarrow> run_schedule config e acts s = Some s' \<Longrightarrow> pool_inv s'"
proof (induction acts arbitrary: s)
  case Nil
  then show ?case by simp
next
  case (Cons a acts)
  then obtain s1 where "fire config e a s = Some s1" "run_schedule config e acts s1 = Some s'"
    by (auto split: option.splits)
  then show ?case using Cons.IH fire_inv Cons.prems(1) by blast
qed

lemma run_schedule_append:
  "run_schedule config e (xs @ ys) s =
     (case run_schedule config e xs s of None \<Rightarrow> None | Some s1 \<Rightarrow> run_schedule config e ys s1)"
  by (induction xs arbitrary: s) (auto split: option.splits)

lemma consumer_drains:
  "\<not> panicked s \<Longrightarrow> \<not> consumer_done s \<Longrightarrow> jobDescriptionChan_closed s \<Longrightarrow>
   jobDescriptionChan s = rs \<Longrightarrow>
   \<exists>s'. run_schedule config e (replicate (Suc (length rs)) ConsumerStep) s = Some s'
       \<and> consumer_done s' \<and> received s' = received s @ rs"
proof (induction rs arbitrary: s)
  case Nil
  then show ?case by (simp add: fire_def consumer_step_def)
next
  case (Cons r rs)
  let ?s1 = "s\<lparr>jobDescriptionChan := rs, received := received s @ [r]\<rparr>"
  have f: "fire config e ConsumerStep s = Some ?s1"
    using Cons.prems by (simp add: fire_def consumer_step_def)
  have "\<exists>s'. run_schedule config e (replicate (Suc (length rs)) ConsumerStep) ?s1 = Some s'
       \<and> consumer_done s' \<and> received s' = received ?s1 @ rs"
    using Cons.prems by (intro Cons.IH) simp_all
  then show ?case using f by simp
qed

lemma closer_finishes:
  assumes "pool_inv s" "length (workers s) = numWorkers" "\<forall>w \<in> set (workers s). w = Exited"
  shows "\<exists>s1. run_schedule config e
            (if main s = AtCloser then [MainStep, CloserStep, CloserStep]
             else case closer s of Waiting \<Rightarrow> [CloserStep, CloserStep]
                  | Closing \<Rightarrow> [CloserStep] | _ \<Rightarrow> []) s = Some s1
        \<and> jobDescriptionChan_closed s1 \<and> \<not> panicked s1
        \<and> jobDescriptionChan s1 = jobDescriptionChan s \<and> received s1 = received s
        \<and> consumer_done s1 = consumer_done s"
proof -
  have l0: "live (workers s) = 0" using assms(3) by (simp add: live_0)
  show ?thesis
  proof (cases "main s")
    case (AtAdd k)
    then show ?thesis using assms by (auto simp: pool_inv_def)
  next
    case (AtGo k)
    then show ?thesis using assms by (auto simp: pool_inv_def)
  next
    case AtCloser
    then show ?thesis using assms l0
      by (simp add: pool_inv_def fire_def main_step_def closer_step_def)
  next
    case Returned
    then show ?thesis using assms l0
      by (cases "closer s") (auto simp: pool_inv_def fire_def closer_step_def)
  qed
qed

text \<open>
  Claim C7. In every state the pool reaches, under every schedule:
  \<^item> if the output channel is closed, then all three workers were started and every one
    of them has returned, and the counter of the wait group is 0;
  \<^item> no worker has sent on the closed channel (nothing panicked);
  \<^item> once all three workers have returned, the consumer's loop can run to its end
    without any worker: the closing goroutine takes the steps it has left, the consumer
    receives what is buffered in the channel, finds it closed and ends.
\<close>

theorem output_closed_only_after_all_workers_exited:
  assumes "run_schedule config e acts pool0 = Some s"
  shows "(jobDescriptionChan_closed s \<longrightarrow>
            length (workers s) = numWorkers \<and> (\<forall>w \<in> set (workers s). w = Exited) \<and> wg s = 0)
       \<and> \<not> panicked s
       \<and> (length (workers s) = numWorkers \<and> (\<forall>w \<in> set (workers s). w = Exited)
            \<and> \<not> consumer_done s \<longrightarrow>
          (\<exists>s'. run_schedule config e (drain_schedule s) s = Some s'
             \<and> consumer_done s' \<and> received s' = received s @ jobDescriptionChan s))"
proof -
  have inv: "pool_inv s" using run_schedule_inv[OF pool_inv_pool0 assms] .
  have safe: "jobDescriptionChan_closed s \<longrightarrow>
            length (workers s) = numWorkers \<and> (\<forall>w \<in> set (workers s). w = Exited) \<and> wg s = 0"
  proof
    assume c: "jobDescriptionChan_closed s"
    then have fin: "closer s = Finished" using inv by (simp add: pool_inv_def)
    then have l0: "live (workers s) = 0" using inv by (simp add: pool_inv_def)
    have ret: "main s = Returned" using inv fin by (auto simp: pool_inv_def)
    show "length (workers s) = numWorkers \<and> (\<forall>w \<in> set (workers s). w = Exited) \<and> wg s = 0"
      using inv ret l0 by (simp add: pool_inv_def live_0[symmetric])
  qed
  have nopanic: "\<not> panicked s" using inv by (simp add: pool_inv_def)
  have live_: "length (workers s) = numWorkers \<and> (\<forall>w \<in> set (workers s). w = Exited)
            \<and> \<not> consumer_done s \<longrightarrow>
          (\<exists>s'. run_schedule config e (drain_schedule s) s = Some s'
             \<and> consumer_done s' \<and> received s' = received s @ jobDescriptionChan s)"
  proof
    assume h: "length (workers s) = numWorkers \<and> (\<forall>w \<in> set (workers s). w = Exited)
            \<and> \<not> consumer_done s"
    then obtain s1 where s1: "run_schedule config e
            (if main s = AtCloser then [MainStep, CloserStep, CloserStep]
             else case closer s of Waiting \<Rightarrow> [CloserStep, CloserStep]
                  | Closing \<Rightarrow> [CloserStep] | _ \<Rightarrow> []) s = Some s1"
        "jobDescriptionChan_closed s1" "\<not> panicked s1"
        "jobDescriptionChan s1 = jobDescriptionChan s" "received s1 = received s"
        "consumer_done s1 = consumer_done s"
      using closer_finishes[OF inv, of config e] by blast
    obtain s' where "run_schedule config e
          (replicate (Suc (length (jobDescriptionChan s))) ConsumerStep) s1 = Some s'"
        "consumer_done s'" "received s' = received s1 @ jobDescriptionChan s"
      using consumer_drains[OF s1(3) _ s1(2) s1(4), of config e] s1(6) h by auto
    then show "\<exists>s'. run_schedule config e (drain_schedule s) s = Some s'
             \<and> consumer_done s' \<and> received s' = received s @ jobDescriptionChan s"
      using s1 by (auto simp: drain_schedule_def run_schedule_append)
  qed
  from safe nopanic live_ show ?thesis by blast
qed

lemma GetJobDescription_worker_quiet:
  assumes "\<forall>n. \<not> done_at e n"
  shows "fetched (GetJobDescription_worker config e jobs st) = fetched st @ jobs
       \<and> sent (GetJobDescription_worker config e jobs st) = sent st @
           List.map_filter (\<lambda>job.
              case ScrapeJobDescriptionWithContext config e job of
                Inl err \<Rightarrow> None
              | Inr (jd, jc) \<Rightarrow>
                  Some \<lparr>Job = job,
                        JobDescription = \<lparr>JobID = ID job, Description = jd, Criteria = jc\<rparr>\<rparr>) jobs
       \<and> logged (GetJobDescription_worker config e jobs st) = logged st @
           List.map_filter (\<lambda>job.
              case ScrapeJobDescriptionWithContext config e job of
                Inl err \<Rightarrow> Some err
              | Inr r \<Rightarrow> None) jobs"
proof (induction jobs arbitrary: st)
  case Nil
  then show ?case by (simp add: List.map_filter_simps)
next
  case (Cons job jobs)
  show ?case
  proof (cases "ScrapeJobDescriptionWithContext config e job")
    case (Inl err)
    then show ?thesis
      using assms Cons.IH by (simp add: List.map_filter_simps Let_def)
  next
    case (Inr r)
    then show ?thesis
      using assms Cons.IH by (cases r) (simp add: List.map_filter_simps Let_def)
  qed
qed

lemma jobDescriptionWorker_quiet:
  assumes "\<forall>n. \<not> done_at e n"
  shows "fetched (jobDescriptionWorker config e jobs st) = fetched st @ jobs
       \<and> sent (jobDescriptionWorker config e jobs st) = sent st @ map (result_for config e) jobs"
  using assms by (induction jobs arbitrary: st) (simp_all add: Let_def)

text \<open>
  Claim C4, as amended. While the token does not fire, a worker calls the scrape for every
  job it receives, whatever the outcome for the jobs before it. The worker of
  \<^verbatim>\<open>GetJobDescription\<close> sends one value for each job whose scrape succeeded and none for
  a job whose scrape failed; the failures are logged. \<^verbatim>\<open>jobDescriptionWorker\<close> sends one
  result for every job, with the error of the scrape in its \<^verbatim>\<open>Error\<close> field.
\<close>

theorem worker_survives_failed_record:
  assumes "\<forall>n. \<not> done_at e n"
  shows "fetched (GetJobDescription_worker config e jobs wstate0) = jobs
       \<and> sent (GetJobDescription_worker config e jobs wstate0) =
           List.map_filter (\<lambda>job.
              case ScrapeJobDescriptionWithContext config e job of
                Inl err \<Rightarrow> None
              | Inr (jd, jc) \<Rightarrow>
                  Some \<lparr>Job = job,
                        JobDescription = \<lparr>JobID = ID job, Description = jd, Criteria = jc\<rparr>\<rparr>) jobs
       \<and> logged (GetJobDescription_worker config e jobs wstate0) =
           List.map_filter (\<lambda>job.
              case ScrapeJobDescriptionWithContext config e job of
                Inl err \<Rightarrow> Some err
              | Inr r \<Rightarrow> None) jobs
       \<and> fetched (jobDescriptionWorker config e jobs wstate0) = jobs
       \<and> sent (jobDescriptionWorker config e jobs wstate0) = map (result_for config e) jobs
       \<and> (\<forall>job. ResultJob (result_for config e job) = job
              \<and> ResultError (result_for config e job) =
                  (case ScrapeJobDescriptionWithContext config e job of
                     Inl err \<Rightarrow> Some err
                   | Inr r \<Rightarrow> None))"
proof -
  have "\<forall>job. ResultJob (result_for config e job) = job
              \<and> ResultError (result_for config e job) =
                  (case ScrapeJobDescriptionWithContext config e job of
                     Inl err \<Rightarrow> Some err
                   | Inr r \<Rightarrow> None)"
    by (auto simp: result_for_def split: sum.splits)
  then show ?thesis
    using GetJobDescription_worker_quiet[OF assms, of config jobs wstate0]
      jobDescriptionWorker_quiet[OF assms, of config jobs wstate0]
    by (simp add: wstate0_def)
qed

lemma transport_main_ok:
  "fst (RetryableHTTPRequestImpl_RetryableHTTPRequest (retry_config main_Config)
          (world_of [resp 200 ''200 OK''] None)) = Inr \<lparr>StatusCode = 200, Status = ''200 OK''\<rparr>"
  by (simp add: RetryableHTTPRequestImpl_RetryableHTTPRequest_def
        retry_loop.simps world_of_def script_def resp_def after_do_def tstate0_def Let_def
        retry_config_def main_Config_def)

lemma blank_trimmed: "TrimSpace ''  '' = []"
  by (simp add: TrimSpace_def trim_leading.simps leading_rune_def space_runes_def)

lemma hiring_trimmed: "TrimSpace ''We are hiring.'' = ''We are hiring.''"
  by (simp add: TrimSpace_def trim_leading.simps leading_rune_def space_runes_def)

lemma scrape_without_description:
  "ScrapeJobDescriptionWithContext main_Config site_without_descriptions job = Inl DescriptionNotFound"
  by (simp add: ScrapeJobDescriptionWithContext_def site_without_descriptions_def site_with_def
        transport_main_ok blank_trimmed Let_def)

lemma scrape_site_with:
  "ScrapeJobDescriptionWithContext main_Config (site_with cards) job
     = Inr (''We are hiring.'', Map.empty)"
  by (simp add: ScrapeJobDescriptionWithContext_def site_with_def
        transport_main_ok hiring_trimmed Let_def)

lemma quiet_without_descriptions: "done_at site_without_descriptions n = False"
  by (simp add: site_without_descriptions_def site_with_def)

text \<open>
  Claim C4 says that a worker wraps the failure on a record into a failed result and
  emits it on the output stream of the pool. The workers of \<^verbatim>\<open>GetJobDescription\<close>, the
  pool that \<^verbatim>\<open>ProcessJobsStreaming\<close> runs, emit nothing for such a record: here the
  description of the one job is blank, the scrape fails, and the worker has sent nothing.
\<close>

theorem failed_record_is_not_emitted:
  "ScrapeJobDescriptionWithContext main_Config site_without_descriptions job_12345
     = Inl DescriptionNotFound
   \<and> fetched (GetJobDescription_worker main_Config site_without_descriptions [job_12345] wstate0)
     = [job_12345]
   \<and> sent (GetJobDescription_worker main_Config site_without_descriptions [job_12345] wstate0)
     = []"
  by (simp add: scrape_without_description wstate0_def quiet_without_descriptions Let_def)

theorem worker_survives_failed_record_witness:
  "fetched (GetJobDescription_worker main_Config site_without_descriptions
              [job_12345, job_12345] wstate0) = [job_12345, job_12345]
   \<and> sent (GetJobDescription_worker main_Config site_without_descriptions
              [job_12345, job_12345] wstate0) = []
   \<and> logged (GetJobDescription_worker main_Config site_without_descriptions
              [job_12345, job_12345] wstate0) = [DescriptionNotFound, DescriptionNotFound]
   \<and> map ResultError (sent (jobDescriptionWorker main_Config site_without_descriptions
              [job_12345, job_12345] wstate0))
       = [Some DescriptionNotFound, Some DescriptionNotFound]"
proof -
  have quiet: "\<forall>n. \<not> done_at site_without_descriptions n"
    by (simp add: quiet_without_descriptions)
  from worker_survives_failed_record[OF quiet, of main_Config "[job_12345, job_12345]"]
  show ?thesis
    by (simp add: scrape_without_description List.map_filter_simps)
qed

theorem output_closed_only_after_all_workers_exited_witness:
  "\<exists>s. run_schedule main_Config (site_with []) example_schedule pool0 = Some s
      \<and> jobDescriptionChan_closed s \<and> length (workers s) = numWorkers \<and> wg s = 0
      \<and> \<not> panicked s
      \<and> (\<exists>s'. run_schedule main_Config (site_with []) (drain_schedule s) s = Some s'
            \<and> consumer_done s' \<and> map (\<lambda>r. ID (Job r)) (received s') = [12345])"
proof -
  have "\<exists>s. run_schedule main_Config (site_with []) example_schedule pool0 = Some s
      \<and> jobDescriptionChan_closed s \<and> workers s = [Exited, Exited, Exited]
      \<and> \<not> consumer_done s \<and> received s = []
      \<and> map (\<lambda>r. ID (Job r)) (jobDescriptionChan s) = [12345]"
    by (simp add: example_schedule_def pool0_def fire_def main_step_def worker_step_def
          closer_step_def numWorkers_def chan_cap_def scrape_site_with job_12345_def)
  then obtain s where s: "run_schedule main_Config (site_with []) example_schedule pool0 = Some s"
      "jobDescriptionChan_closed s" "workers s = [Exited, Exited, Exited]"
      "\<not> consumer_done s" "received s = []"
      "map (\<lambda>r. ID (Job r)) (jobDescriptionChan s) = [12345]"
    by (elim exE conjE)
  have all: "length (workers s) = numWorkers \<and> (\<forall>w \<in> set (workers s). w = Exited)
            \<and> \<not> consumer_done s"
    using s by (simp add: numWorkers_def)
  from output_closed_only_after_all_workers_exited[OF s(1), of ] s(2) all
  have "wg s = 0" "\<not> panicked s"
    "\<exists>s'. run_schedule main_Config (site_with []) (drain_schedule s) s = Some s'
             \<and> consumer_done s' \<and> received s' = received s @ jobDescriptionChan s"
    by blast+
  then show ?thesis
    using s by (intro exI[of _ s]) (auto simp: numWorkers_def)
qed

section \<open>Properties of the persistence layer\<close>

lemma update_keyed:
  "\<forall>p \<in> set al. ID (snd p) = fst p \<Longrightarrow>
   \<forall>p \<in> set (AList.update (ID job) job al). ID (snd p) = fst p"
  by (induction al) auto

lemma jobMap_props:
  "distinct (map fst m0) \<Longrightarrow> \<forall>p \<in> set m0. ID (snd p) = fst p \<Longrightarrow>
   distinct (map fst (fold (\<lambda>job m. AList.update (ID job) job m) jobs m0))
   \<and> (\<forall>p \<in> set (fold (\<lambda>job m. AList.update (ID job) job m) jobs m0). ID (snd p) = fst p)
   \<and> map_of (fold (\<lambda>job m. AList.update (ID job) job m) jobs m0)
       = fold (\<lambda>job t. t(ID job \<mapsto> job)) jobs (map_of m0)"
proof (induction jobs arbitrary: m0)
  case Nil
  then show ?case by simp
next
  case (Cons job jobs)
  have "distinct (map fst (AList.update (ID job) job m0))"
    using Cons.prems(1) by (rule distinct_update)
  moreover have "\<forall>p \<in> set (AList.update (ID job) job m0). ID (snd p) = fst p"
    using Cons.prems(2) by (rule update_keyed)
  ultimately show ?case
    using Cons.IH[of "AList.update (ID job) job m0"] by (simp add: update_conv')
qed

lemma find_app:
  "find P (xs @ ys) = (case find P xs of None \<Rightarrow> find P ys | Some x \<Rightarrow> Some x)"
  by (induction xs) auto

lemma fold_upd_latest:
  "fold (\<lambda>job t. t(ID job \<mapsto> job)) rows t k =
     (case find (\<lambda>j. ID j = k) (rev rows) of Some j \<Rightarrow> Some j | None \<Rightarrow> t k)"
proof (induction rows arbitrary: t)
  case Nil
  then show ?case by simp
next
  case (Cons job rows)
  have "fold (\<lambda>job t. t(ID job \<mapsto> job)) (job # rows) t k =
          fold (\<lambda>job t. t(ID job \<mapsto> job)) rows (t(ID job \<mapsto> job)) k"
    by simp
  also have "\<dots> = (case find (\<lambda>j. ID j = k) (rev rows) of
                      Some j \<Rightarrow> Some j | None \<Rightarrow> (t(ID job \<mapsto> job)) k)"
    by (rule Cons.IH)
  also have "\<dots> = (case find (\<lambda>j. ID j = k) (rev (job # rows)) of
                      Some j \<Rightarrow> Some j | None \<Rightarrow> t k)"
    by (simp add: find_app split: option.splits)
  finally show ?case .
qed

lemma find_by_key_unique:
  assumes "distinct (map ID ys)"
  shows "find (\<lambda>j. ID j = k) ys = Some j \<longleftrightarrow> j \<in> set ys \<and> ID j = k"
proof
  assume "find (\<lambda>j. ID j = k) ys = Some j"
  then show "j \<in> set ys \<and> ID j = k"
    by (auto simp: find_Some_iff)
next
  assume h: "j \<in> set ys \<and> ID j = k"
  then have "find (\<lambda>j. ID j = k) ys \<noteq> None" by (auto simp: find_None_iff)
  then obtain j' where j': "find (\<lambda>j. ID j = k) ys = Some j'" by auto
  then have "j' \<in> set ys" "ID j' = k" by (auto simp: find_Some_iff)
  moreover have "inj_on ID (set ys)" using assms by (simp add: distinct_map)
  ultimately have "j' = j" using h by (auto dest: inj_onD)
  then show "find (\<lambda>j. ID j = k) ys = Some j" using j' by simp
qed

lemma rows_of_jobMap:
  fixes jobs :: "Job list" and range_order :: "Job list \<Rightarrow> Job list"
  assumes perm: "\<forall>xs. mset (range_order xs) = mset xs"
  defines "jobMap \<equiv> fold (\<lambda>job m. AList.update (ID job) job m) jobs []"
  shows "distinct (map ID (range_order (map snd jobMap)))"
    and "find (\<lambda>j. ID j = k) (rev (range_order (map snd jobMap)))
           = find (\<lambda>j. ID j = k) (rev jobs)"
    and "ID ` set (range_order (map snd jobMap)) = ID ` set jobs"
proof -
  let ?rows = "range_order (map snd jobMap)"
  have props: "distinct (map fst jobMap)" "\<forall>p \<in> set jobMap. ID (snd p) = fst p"
    "map_of jobMap = fold (\<lambda>job t. t(ID job \<mapsto> job)) jobs Map.empty"
    using jobMap_props[of "[]" jobs] by (simp_all add: jobMap_def)
  have keys: "map ID (map snd jobMap) = map fst jobMap"
    using props(2) by (induction jobMap) auto
  have m: "mset ?rows = mset (map snd jobMap)" using perm by blast
  then have "mset (map ID ?rows) = mset (map ID (map snd jobMap))"
    by (metis mset_map)
  then have "distinct (map ID ?rows) \<longleftrightarrow> distinct (map ID (map snd jobMap))"
    by (rule mset_eq_imp_distinct_iff)
  then have "distinct (map ID ?rows) \<longleftrightarrow> distinct (map fst jobMap)"
    unfolding keys .
  then show d: "distinct (map ID ?rows)" using props(1) by blast
  have s: "set ?rows = snd ` set jobMap" using mset_eq_setD[OF m] by simp
  have latest: "map_of jobMap k = find (\<lambda>j. ID j = k) (rev jobs)"
    using fold_upd_latest[of jobs Map.empty k] props(3)
    by (simp split: option.splits)
  have d': "distinct (map ID (rev ?rows))" using d by (simp add: rev_map[symmetric])
  have "find (\<lambda>j. ID j = k) (rev ?rows) = map_of jobMap k"
  proof (cases "map_of jobMap k")
    case None
    then have "k \<notin> fst ` set jobMap" by (simp add: map_of_eq_None_iff)
    then have "\<not> (\<exists>j. j \<in> set (rev ?rows) \<and> ID j = k)"
      using s props(2) by force
    then show ?thesis using None by (simp add: find_None_iff)
  next
    case (Some j)
    then have "(k, j) \<in> set jobMap" using props(1) by simp
    then have "j \<in> set (rev ?rows) \<and> ID j = k" using s props(2) by force
    then show ?thesis using Some find_by_key_unique[OF d'] by simp
  qed
  then show "find (\<lambda>j. ID j = k) (rev ?rows) = find (\<lambda>j. ID j = k) (rev jobs)"
    using latest by simp
  have "fst ` set jobMap = ID ` set jobs"
  proof -
    have "dom (fold (\<lambda>job t. t(ID job \<mapsto> job)) jobs t) = dom t \<union> ID ` set jobs" for t
      by (induction jobs arbitrary: t) auto
    from this[of Map.empty] show ?thesis using props(3) by (metis dom_empty dom_map_of_conv_image_fst sup_bot_left)
  qed
  moreover have "ID ` set ?rows = fst ` set jobMap"
    using s props(2) by force
  ultimately show "ID ` set ?rows = ID ` set jobs" by simp
qed

text \<open>
  Claim C9. \<open>range_order\<close> is any order in which Go may visit the entries of the map (a
  permutation), and the database can be reached. Then \<^verbatim>\<open>SaveJobs\<close> returns no error, and
  afterwards the jobs table holds, under every identifier of the batch, the last job of the
  batch with that identifier; rows under other identifiers are as before. For a batch that
  is not empty, the one statement executed has exactly one row for each identifier of the
  batch.
\<close>

theorem SaveJobs_last_occurrence_wins:
  assumes "\<forall>xs. mset (range_order xs) = mset xs" and "online db"
  shows "fst (SaveJobs range_order jobs db) = None
       \<and> (\<forall>k. jobs_table (snd (SaveJobs range_order jobs db)) k =
             (case find (\<lambda>j. ID j = k) (rev jobs) of
                Some j \<Rightarrow> Some j
              | None \<Rightarrow> jobs_table db k))
       \<and> (jobs \<noteq> [] \<longrightarrow>
            (\<exists>rows. executed (snd (SaveJobs range_order jobs db))
                       = executed db @ [UpsertJobs rows]
                  \<and> distinct (map ID rows) \<and> ID ` set rows = ID ` set jobs))"
proof (cases "jobs = []")
  case True
  then show ?thesis by (simp add: SaveJobs_def)
next
  case False
  let ?rows = "range_order (map snd (fold (\<lambda>job m. AList.update (ID job) job m) jobs []))"
  have d: "distinct (map ID ?rows)"
    and f: "\<And>k. find (\<lambda>j. ID j = k) (rev ?rows) = find (\<lambda>j. ID j = k) (rev jobs)"
    and i: "ID ` set ?rows = ID ` set jobs"
    using rows_of_jobMap[OF assms(1), where jobs = jobs] by blast+
  have ex: "Exec (UpsertJobs ?rows) db =
      (None, db\<lparr>executed := executed db @ [UpsertJobs ?rows],
                jobs_table := fold (\<lambda>job t. t(ID job \<mapsto> job)) ?rows (jobs_table db)\<rparr>)"
    using assms(2) d by (simp add: Exec_def Let_def)
  have sj: "SaveJobs range_order jobs db =
      (None, db\<lparr>executed := executed db @ [UpsertJobs ?rows],
                jobs_table := fold (\<lambda>job t. t(ID job \<mapsto> job)) ?rows (jobs_table db)\<rparr>)"
    using False by (simp add: SaveJobs_def Let_def ex)
  show ?thesis
    using False d i by (simp add: sj fold_upd_latest f)
qed

lemma job_lists:
  "rev [job_12345, job_retitled] = [job_retitled, job_12345]"
  "ID job_retitled = 12345" "ID job_12345 = 12345"
  by (simp_all add: job_retitled_def job_12345_def)

theorem SaveJobs_last_occurrence_wins_witness:
  "fst (SaveJobs id [job_12345, job_retitled] empty_db) = None
   \<and> map_option Title (jobs_table (snd (SaveJobs id [job_12345, job_retitled] empty_db)) 12345)
       = Some ''Senior Frontend Developer''
   \<and> jobs_table (snd (SaveJobs id [job_12345, job_retitled] empty_db)) 7 = None
   \<and> executed (snd (SaveJobs id [job_12345, job_retitled] empty_db))
       = [UpsertJobs [job_retitled]]"
proof -
  have perm: "\<forall>xs::Job list. mset (id xs) = mset xs" by simp
  have on: "online empty_db" by (simp add: empty_db_def)
  have ex: "executed (snd (SaveJobs id [job_12345, job_retitled] empty_db))
       = [UpsertJobs [job_retitled]]"
    by (simp add: SaveJobs_def Exec_def empty_db_def job_lists Let_def)
  from SaveJobs_last_occurrence_wins[OF perm on, of "[job_12345, job_retitled]"]
  have "fst (SaveJobs id [job_12345, job_retitled] empty_db) = None"
    "\<And>k. jobs_table (snd (SaveJobs id [job_12345, job_retitled] empty_db)) k =
             (case find (\<lambda>j. ID j = k) (rev [job_12345, job_retitled]) of
                Some j \<Rightarrow> Some j
              | None \<Rightarrow> jobs_table empty_db k)"
    by blast+
  then show ?thesis
    using ex by (simp add: job_lists) (simp add: job_retitled_def empty_db_def)
qed

lemma worker_sends_nothing:
  "\<forall>job \<in> set jobs. isl (ScrapeJobDescriptionWithContext config e job) \<Longrightarrow>
   sent (GetJobDescription_worker config e jobs st) = sent st"
proof (induction jobs arbitrary: st)
  case Nil
  then show ?case by simp
next
  case (Cons job jobs)
  then obtain err where "ScrapeJobDescriptionWithContext config e job = Inl err"
    by (cases "ScrapeJobDescriptionWithContext config e job") auto
  then show ?case using Cons by (simp add: Let_def)
qed

text \<open>
  Claim C10. For an empty batch \<^verbatim>\<open>SaveJobs\<close> and \<^verbatim>\<open>SaveJobDescriptions\<close> return
  \<^verbatim>\<open>nil\<close> and leave the database, the record of executed statements included, as it is,
  whatever its state; so does \<^verbatim>\<open>ProcessJobsStreaming\<close> when its stream is empty. The
  stream is empty when every scrape fails: a worker of \<^verbatim>\<open>GetJobDescription\<close> then sends
  nothing.
\<close>

theorem empty_batch_touches_nothing:
  "SaveJobs range_order [] db = (None, db)
   \<and> SaveJobDescriptions [] db = (None, db)
   \<and> ProcessJobsStreaming range_order [] db = (None, db)
   \<and> ((\<forall>job \<in> set jobs. isl (ScrapeJobDescriptionWithContext config e job)) \<longrightarrow>
        ProcessJobsStreaming range_order
          (sent (GetJobDescription_worker config e jobs wstate0)) db = (None, db))"
proof -
  have empty: "ProcessJobsStreaming range_order [] db = (None, db)"
    by (simp add: SaveJobs_def SaveJobDescriptions_def ProcessJobsStreaming_def)
  have "sent (GetJobDescription_worker config e jobs wstate0) = []"
    if "\<forall>job \<in> set jobs. isl (ScrapeJobDescriptionWithContext config e job)"
    using worker_sends_nothing[OF that, of wstate0] by (simp add: wstate0_def)
  then show ?thesis
    using empty by (simp add: SaveJobs_def SaveJobDescriptions_def)
qed

theorem empty_batch_touches_nothing_witness:
  "ProcessJobsStreaming id
     (sent (GetJobDescription_worker main_Config site_without_descriptions [job_12345] wstate0))
     empty_db = (None, empty_db)
   \<and> executed empty_db = []"
proof -
  have "ScrapeJobDescriptionWithContext main_Config site_without_descriptions job_12345
          = Inl DescriptionNotFound"
    by (rule scrape_without_description)
  then have "\<forall>job \<in> set [job_12345].
      isl (ScrapeJobDescriptionWithContext main_Config site_without_descriptions job)"
    by simp
  with empty_batch_touches_nothing[of id empty_db "[job_12345]" main_Config
         site_without_descriptions]
  show ?thesis by (simp add: empty_db_def)
qed

end
